(* ===== verification/Prelude.thy ===== *)
theory Prelude
  imports Complex_Main "HOL-Library.Word" "HOL-Library.Signed_Division"
begin

text \<open>
  Vocabulary shared by every component: the Go machine types, the two ways a Go process
  stops before its time, buffers, counters over a finite family of goroutines, and the
  interfaces (locales) for components that are modelled as step relations.
\<close>

section \<open>Go values\<close>

type_synonym byte = "8 word"
type_synonym u32 = "32 word"
type_synonym int64 = "64 word"

text \<open>
  A process ends early by \<open>log.Fatalf\<close> or by a run-time panic (index out of range,
  division by zero, nil dereference, negative WaitGroup counter). A function that can do
  either returns \<open>go_stop + 'a\<close>.
\<close>

datatype go_stop = Fatal string | Panic string

text \<open>Collections of simplification rules: calls into the byte-stream layer, and steps of machines.\<close>

named_theorems io_simps
named_theorems machine_simps

section \<open>Buffers\<close>

text \<open>\<open>make([]byte, n)\<close>: a zeroed slice. Kept folded, since some buffers are 10 MiB long.\<close>

definition mkbuf :: "nat \<Rightarrow> byte list" where
  "mkbuf n = replicate n 0"

lemma length_mkbuf [simp]: "length (mkbuf n) = n"
  by (simp add: mkbuf_def)

lemma mkbuf_0 [simp]: "mkbuf 0 = []"
  by (simp add: mkbuf_def)

lemma take_mkbuf [simp]: "take k (mkbuf n) = mkbuf (min k n)"
  by (simp add: mkbuf_def min.commute)

lemma drop_mkbuf [simp]: "drop k (mkbuf n) = mkbuf (n - k)"
  by (simp add: mkbuf_def)

lemma mkbuf_append [simp]: "mkbuf m @ mkbuf n = mkbuf (m + n)"
  by (simp add: mkbuf_def replicate_add)

text \<open>Copying \<open>p\<close> over the front of a slice, in place (\<open>copy(b, p)\<close>).\<close>

abbreviation overwrite :: "'a list \<Rightarrow> 'a list \<Rightarrow> 'a list" where
  "overwrite p b \<equiv> p @ drop (length p) b"

lemma length_overwrite: "length p \<le> length b \<Longrightarrow> length (overwrite p b) = length b"
  by simp

lemma overwrite_overwrite:
  "length p = length q \<Longrightarrow> overwrite q (overwrite p b) = overwrite q b"
  by simp

lemma take_drop_rest: "k \<le> n \<Longrightarrow> take (n - k) (drop k b) @ drop n b = drop k b"
  by (metis append_take_drop_id drop_drop le_add_diff_inverse2)

text \<open>\<open>concat (replicate n xs)\<close>: a stream that repeats one message.\<close>

definition repeated :: "nat \<Rightarrow> 'a list \<Rightarrow> 'a list" where
  "repeated n xs = concat (replicate n xs)"

lemma repeated_0 [simp]: "repeated 0 xs = []"
  by (simp add: repeated_def)

lemma repeated_Suc [simp]: "repeated (Suc n) xs = xs @ repeated n xs"
  by (simp add: repeated_def)

lemma length_repeated [simp]: "length (repeated n xs) = n * length xs"
  by (induction n) simp_all

lemma repeated_snoc: "repeated n xs @ xs = xs @ repeated n xs"
  by (induction n) simp_all

section \<open>Words\<close>

lemma unat_of_nat_u32: "unat (of_nat n :: u32) = n mod 2 ^ 32"
  by (simp add: unat_of_nat)

lemma unat_of_nat_u32_small: "n < 2 ^ 32 \<Longrightarrow> unat (of_nat n :: u32) = n"
  by (simp add: unat_of_nat)

lemma unat_of_int_u32: "unat (of_int k :: u32) = nat (k mod 2 ^ 32)"
  by (simp add: unat_eq_nat_uint uint_word_of_int del: of_int_numeral)

section \<open>Counting over a finite family\<close>

text \<open>How many of the goroutines \<open>0, \<dots>, n - 1\<close> are in a state satisfying \<open>P\<close>.\<close>

definition tally :: "('a \<Rightarrow> bool) \<Rightarrow> (nat \<Rightarrow> 'a) \<Rightarrow> nat \<Rightarrow> int" where
  "tally P f n = (\<Sum>i<n. of_bool (P (f i)))"

lemma tally_0 [simp]: "tally P f 0 = 0"
  by (simp add: tally_def)

lemma tally_Suc: "tally P f (Suc n) = tally P f n + of_bool (P (f n))"
  by (simp add: tally_def)

lemma tally_nonneg [simp]: "0 \<le> tally P f n"
  by (simp add: tally_def sum_nonneg)

lemma tally_const [simp]: "tally P (\<lambda>_. x) n = (if P x then int n else 0)"
  by (simp add: tally_def)

lemma tally_upd_out: "n \<le> i \<Longrightarrow> tally P (f(i := x)) n = tally P f n"
  by (simp add: tally_def)

lemma tally_upd [machine_simps]:
  "i < n \<Longrightarrow> tally P (f(i := x)) n = tally P f n - of_bool (P (f i)) + of_bool (P x)"
  by (induction n) (auto simp: tally_Suc tally_upd_out less_Suc_eq)

lemma tally_pos: "i < n \<Longrightarrow> P (f i) \<Longrightarrow> 0 < tally P f n"
proof (induction n)
  case (Suc n)
  then show ?case
    by (cases "i = n") (auto simp: tally_Suc less_Suc_eq add_pos_nonneg add_nonneg_pos)
qed simp

lemma tally_zero_iff: "tally P f n = 0 \<longleftrightarrow> (\<forall>i<n. \<not> P (f i))"
proof
  show "tally P f n = 0 \<Longrightarrow> \<forall>i<n. \<not> P (f i)"
    using tally_pos [of _ n P f] by fastforce
qed (simp add: tally_def)

lemma tally_exists: "0 < tally P f n \<Longrightarrow> \<exists>i<n. P (f i)"
  using tally_zero_iff [of P f n] by auto

lemma tally_le: "tally P f n \<le> int n"
  by (induction n) (simp_all add: tally_Suc)

lemma tally_less: "i < n \<Longrightarrow> \<not> P (f i) \<Longrightarrow> tally P f n < int n"
proof (induction n)
  case (Suc n)
  then show ?case
    using tally_le [of P f n] by (cases "i = n") (auto simp: tally_Suc less_Suc_eq)
qed simp

lemma tally_full: "tally P f n = int n \<Longrightarrow> i < n \<Longrightarrow> P (f i)"
  using tally_less [of i n P f] by auto

lemma tally_cong: "(\<And>i. i < n \<Longrightarrow> P (f i) = Q (g i)) \<Longrightarrow> tally P f n = tally Q g n"
  by (simp add: tally_def)

lemma tally_all: "\<forall>i<n. P (f i) \<Longrightarrow> tally P f n = int n"
  by (simp add: tally_def)

lemma tally_card: "tally P f n = int (card {i. i < n \<and> P (f i)})"
proof -
  have "{i. i < n \<and> P (f i)} = {i \<in> {..<n}. P (f i)}" by auto
  then show ?thesis by (simp add: tally_def sum.inter_filter [symmetric] of_bool_def)
qed

text \<open>The total of a weight over the family, before and after one member moves.\<close>

lemma sum_upd:
  fixes w :: "'a \<Rightarrow> nat" and n :: nat
  assumes "i < n"
  shows "(\<Sum>m<n. w ((f(i := x)) m)) + w (f i) = (\<Sum>m<n. w (f m)) + w x"
  using assms
proof (induction n)
  case (Suc n)
  show ?case
  proof (cases "i = n")
    case True
    then have "(\<Sum>m<n. w ((f(i := x)) m)) = (\<Sum>m<n. w (f m))" by (intro sum.cong) simp_all
    with True show ?thesis by simp
  next
    case False
    with Suc have "(\<Sum>m<n. w ((f(i := x)) m)) + w (f i) = (\<Sum>m<n. w (f m)) + w x" by simp
    with False show ?thesis by simp
  qed
qed simp

section \<open>Machines\<close>

text \<open>
  A component with concurrent goroutines is a set of start states and a step relation.
  \<open>reach\<close> is the set of states a run can be in.
\<close>

inductive reach :: "('s \<Rightarrow> bool) \<Rightarrow> ('s \<Rightarrow> 's \<Rightarrow> bool) \<Rightarrow> 's \<Rightarrow> bool"
  for start :: "'s \<Rightarrow> bool" and step :: "'s \<Rightarrow> 's \<Rightarrow> bool" where
  reach_start: "start s \<Longrightarrow> reach start step s"
| reach_step: "reach start step s \<Longrightarrow> step s t \<Longrightarrow> reach start step t"

text \<open>A run given by its successive states.\<close>

fun run_from :: "('s \<Rightarrow> 's \<Rightarrow> bool) \<Rightarrow> 's \<Rightarrow> 's list \<Rightarrow> bool" where
  "run_from step s [] = True"
| "run_from step s (t # ts) = (step s t \<and> run_from step t ts)"

lemma reach_run: "reach start step s \<Longrightarrow> run_from step s ts \<Longrightarrow> reach start step (last (s # ts))"
proof (induction ts arbitrary: s)
  case (Cons t ts)
  then have "reach start step t" and "run_from step t ts" by (auto intro: reach_step)
  with Cons.IH show ?case by simp
qed simp

lemma reach_trans:
  "step\<^sup>*\<^sup>* s t \<Longrightarrow> reach start step s \<Longrightarrow> reach start step t"
  by (induction rule: rtranclp_induct) (auto intro: reach_step)

text \<open>The contract of an inductive invariant.\<close>

locale machine_invariant =
  fixes start :: "'s \<Rightarrow> bool"
    and step :: "'s \<Rightarrow> 's \<Rightarrow> bool"
    and inv :: "'s \<Rightarrow> bool"
  assumes inv_start: "start s \<Longrightarrow> inv s"
    and inv_step: "inv s \<Longrightarrow> step s t \<Longrightarrow> inv t"
begin

lemma reach_inv: "reach start step s \<Longrightarrow> inv s"
  by (induction rule: reach.induct) (auto intro: inv_start inv_step)

lemma steps_inv: "step\<^sup>*\<^sup>* s t \<Longrightarrow> inv s \<Longrightarrow> inv t"
  by (induction rule: rtranclp_induct) (auto intro: inv_step)

end

text \<open>
  A machine in which every step uses up some of a finite budget and no state short of the
  goal is stuck: every run is finite and can be continued to the goal, so the machine has
  neither deadlock nor livelock.
\<close>

locale machine_progress = machine_invariant +
  fixes budget :: "'s \<Rightarrow> nat"
    and goal :: "'s \<Rightarrow> bool"
  assumes budget_step: "inv s \<Longrightarrow> step s t \<Longrightarrow> budget t < budget s"
    and not_stuck: "inv s \<Longrightarrow> \<not> goal s \<Longrightarrow> \<exists>t. step s t"
begin

lemma run_bounded: "inv s \<Longrightarrow> run_from step s ts \<Longrightarrow> length ts \<le> budget s"
proof (induction ts arbitrary: s)
  case (Cons t ts)
  then have "inv t" and "run_from step t ts" and "budget t < budget s"
    by (auto intro: inv_step budget_step)
  with Cons.IH show ?case by fastforce
qed simp

lemma reaches_goal: "inv s \<Longrightarrow> \<exists>t. step\<^sup>*\<^sup>* s t \<and> goal t"
proof (induction "budget s" arbitrary: s rule: less_induct)
  case less
  show ?case
  proof (cases "goal s")
    case False
    with less.prems obtain t where st: "step s t" using not_stuck by blast
    with less.prems have "inv t" and "budget t < budget s"
      by (auto intro: inv_step budget_step)
    then obtain u where "step\<^sup>*\<^sup>* t u" and "goal u" using less.hyps by blast
    with st show ?thesis by (meson converse_rtranclp_into_rtranclp)
  qed auto
qed

lemma maximal_run_at_goal: "inv s \<Longrightarrow> \<nexists>t. step s t \<Longrightarrow> goal s"
  using not_stuck by blast

end

text \<open>
  A machine that implements another: \<open>abs\<close> forgets its details, and each of its steps is a
  step of the abstract machine or one that the abstract machine does not see.
\<close>

locale machine_refinement = machine_invariant +
  fixes astart :: "'a \<Rightarrow> bool"
    and astep :: "'a \<Rightarrow> 'a \<Rightarrow> bool"
    and abs :: "'s \<Rightarrow> 'a"
  assumes abs_start: "start s \<Longrightarrow> astart (abs s)"
    and abs_step: "inv s \<Longrightarrow> step s t \<Longrightarrow> abs t \<noteq> abs s \<Longrightarrow> astep (abs s) (abs t)"
begin

lemma steps_abs: "step\<^sup>*\<^sup>* s t \<Longrightarrow> inv s \<Longrightarrow> astep\<^sup>*\<^sup>* (abs s) (abs t)"
proof (induction rule: rtranclp_induct)
  case (step t u)
  then have "inv t" using steps_inv by blast
  with step abs_step [of t u] show ?case
    by (cases "abs u = abs t") (auto intro: rtranclp.rtrancl_into_rtrancl)
qed simp

lemma reach_abs: "reach start step s \<Longrightarrow> reach astart astep (abs s)"
proof (induction rule: reach.induct)
  case (reach_start s)
  then show ?case by (auto intro: reach.reach_start abs_start)
next
  case (reach_step s t)
  then have "inv s" using reach_inv by blast
  with reach_step abs_step [of s t] show ?case
    by (cases "abs t = abs s") (auto intro: reach.reach_step)
qed

end

end
