(* ===== verification/GoIO.thy ===== *)
theory GoIO
  imports Prelude
begin

text \<open>
  The part of Go's \<open>io\<close>, \<open>encoding/binary\<close> and \<open>net\<close> packages that the repository's
  byte-stream code calls, as pure functions on one end of a connection.

  A connection is seen from one process: \<open>rx\<close> holds the bytes that will still arrive,
  \<open>rx_end\<close> what a read reports once they are used up, \<open>tx\<close> the bytes written so far.
  \<open>wcap\<close> is the number of further bytes the transport accepts (\<open>None\<close>: no limit) and
  \<open>wfail\<close> what a write that does not fit reports. A \<open>net.Conn\<close> always reports an error
  then; \<open>wfail = None\<close> is an \<open>io.Writer\<close> that breaks its contract and returns a short
  count with a nil error, which \<open>WriteFrame\<close> checks for.
\<close>

section \<open>Connections\<close>

datatype io_err = EOF | ErrUnexpectedEOF | NetErr string

record conn =
  rx :: "byte list"
  rx_end :: io_err
  tx :: "byte list"
  wcap :: "nat option"
  wfail :: "io_err option"

text \<open>A connection on which \<open>bs\<close> will arrive before the peer closes, with no write limit.\<close>

definition peer_sends :: "byte list \<Rightarrow> conn" where
  "peer_sends bs = \<lparr>rx = bs, rx_end = EOF, tx = [], wcap = None, wfail = Some EOF\<rparr>"

lemma peer_sends_simps [simp]:
  "rx (peer_sends bs) = bs" "rx_end (peer_sends bs) = EOF" "tx (peer_sends bs) = []"
  "wcap (peer_sends bs) = None"
  by (simp_all add: peer_sends_def)

section \<open>Reading: io.ReadFull\<close>

text \<open>
  Fills \<open>b\<close> or stops at the end of the stream; returns the count, the error, the
  connection and the buffer. An EOF after some bytes is reported as unexpected.
\<close>

definition ReadFull :: "conn \<Rightarrow> byte list \<Rightarrow> nat \<times> io_err option \<times> conn \<times> byte list" where
  "ReadFull c b =
     (let n = min (length b) (length (rx c));
          err = (if length b \<le> length (rx c) then None
                 else if 0 < n \<and> rx_end c = EOF then Some ErrUnexpectedEOF
                 else Some (rx_end c))
      in (n, err, c\<lparr>rx := drop n (rx c)\<rparr>, overwrite (take n (rx c)) b))"

lemma ReadFull_ok [io_simps]:
  "length b \<le> length (rx c) \<Longrightarrow>
     ReadFull c b = (length b, None, c\<lparr>rx := drop (length b) (rx c)\<rparr>, take (length b) (rx c))"
  by (simp add: ReadFull_def Let_def)

lemma ReadFull_exact:
  "rx c = p @ rest \<Longrightarrow> length b = length p \<Longrightarrow>
     ReadFull c b = (length p, None, c\<lparr>rx := rest\<rparr>, p)"
  by (simp add: ReadFull_ok)

lemma ReadFull_short [io_simps]:
  "length (rx c) < length b \<Longrightarrow>
     ReadFull c b =
       (length (rx c),
        Some (if rx c \<noteq> [] \<and> rx_end c = EOF then ErrUnexpectedEOF else rx_end c),
        c\<lparr>rx := []\<rparr>, overwrite (rx c) b)"
  by (auto simp add: ReadFull_def Let_def)

text \<open>The contract callers rely on: the error is nil exactly when the buffer was filled.\<close>

lemma ReadFull_err_iff:
  "ReadFull c b = (n, err, c', b') \<Longrightarrow> (err = None) = (n = length b)"
  by (auto simp: ReadFull_def Let_def split: if_splits)

section \<open>Writing: net.Conn.Write\<close>

definition room :: "conn \<Rightarrow> nat \<Rightarrow> bool" where
  "room c n \<longleftrightarrow> (case wcap c of None \<Rightarrow> True | Some k \<Rightarrow> n \<le> k)"

definition sent :: "conn \<Rightarrow> byte list \<Rightarrow> conn" where
  "sent c bs = c\<lparr>tx := tx c @ bs, wcap := map_option (\<lambda>k. k - length bs) (wcap c)\<rparr>"

definition Write :: "conn \<Rightarrow> byte list \<Rightarrow> nat \<times> io_err option \<times> conn" where
  "Write c bs =
     (case wcap c of
        None \<Rightarrow> (length bs, None, sent c bs)
      | Some k \<Rightarrow> if length bs \<le> k then (length bs, None, sent c bs)
                  else (k, wfail c, sent c (take k bs)))"

lemma Write_ok [io_simps]: "room c (length bs) \<Longrightarrow> Write c bs = (length bs, None, sent c bs)"
  by (auto simp: Write_def room_def split: option.splits)

lemma Write_cases:
  obtains (all) "room c (length bs)" "Write c bs = (length bs, None, sent c bs)"
  | (cut) k where "wcap c = Some k" "k < length bs" "Write c bs = (k, wfail c, sent c (take k bs))"
proof (cases "wcap c")
  case None
  then show ?thesis by (intro all) (simp_all add: room_def Write_def)
next
  case (Some k)
  then show ?thesis
  proof (cases "length bs \<le> k")
    case True
    with Some show ?thesis by (intro all) (simp_all add: room_def Write_def)
  next
    case False
    with Some show ?thesis by (intro cut) (simp_all add: Write_def)
  qed
qed

lemma sent_simps [simp]:
  "rx (sent c bs) = rx c" "rx_end (sent c bs) = rx_end c" "tx (sent c bs) = tx c @ bs"
  "wfail (sent c bs) = wfail c"
  "wcap (sent c bs) = map_option (\<lambda>k. k - length bs) (wcap c)"
  by (simp_all add: sent_def)

lemma sent_rx_update [simp]: "sent (c\<lparr>rx := r\<rparr>) bs = (sent c bs)\<lparr>rx := r\<rparr>"
  by (simp add: sent_def)

lemma sent_Nil [simp]: "sent c [] = c"
  by (cases "wcap c") (simp_all add: sent_def)

lemma sent_sent [simp]: "sent (sent c as) bs = sent c (as @ bs)"
  by (cases "wcap c") (simp_all add: sent_def)

lemma room_sent [simp]: "room c (length as + n) \<Longrightarrow> room (sent c as) n"
  by (auto simp: room_def split: option.splits)

lemma room_rx_update [simp]: "room (c\<lparr>rx := r\<rparr>) n = room c n"
  by (simp add: room_def)

lemma room_mono: "room c n \<Longrightarrow> m \<le> n \<Longrightarrow> room c m"
  by (auto simp: room_def split: option.splits)

lemma room_peer_sends [simp]: "room (peer_sends bs) n"
  by (simp add: room_def)

section \<open>encoding/binary, little endian\<close>

definition PutUint32 :: "u32 \<Rightarrow> byte list" where
  "PutUint32 i = [ucast i, ucast (drop_bit 8 i), ucast (drop_bit 16 i), ucast (drop_bit 24 i)]"

definition Uint32 :: "byte list \<Rightarrow> u32" where
  "Uint32 bs =
     (case bs of
        b0 # b1 # b2 # b3 # _ \<Rightarrow>
          or (or (ucast b0) (push_bit 8 (ucast b1))) (or (push_bit 16 (ucast b2)) (push_bit 24 (ucast b3)))
      | _ \<Rightarrow> 0)"

lemma length_PutUint32 [simp]: "length (PutUint32 i) = 4"
  by (simp add: PutUint32_def)

lemma Uint32_PutUint32 [simp]: "Uint32 (PutUint32 i) = i"
proof (rule bit_word_eqI)
  fix n assume "n < LENGTH(32)"
  then have n: "n < 32" by simp
  consider "n < 8" | "8 \<le> n \<and> n < 16" | "16 \<le> n \<and> n < 24" | "24 \<le> n" by linarith
  then show "bit (Uint32 (PutUint32 i)) n = bit i n"
    by cases (use n in \<open>auto simp: Uint32_def PutUint32_def bit_or_iff bit_push_bit_iff bit_ucast_iff bit_drop_bit_eq\<close>)
qed

lemma PutUint32_inj [simp]: "PutUint32 i = PutUint32 j \<longleftrightarrow> i = j"
  by (metis Uint32_PutUint32)

end
