(* ===== verification/Frame.thy ===== *)
theory Frame
  imports GoIO
begin

text \<open>
  \<open>load-balancing/proxy/frame/frame.go\<close> (its copy \<open>tls/frame/frame.go\<close> is in \<open>TlsCopies\<close>): frames
  of a 4-byte little-endian length followed by that many bytes. Each function returns its
  error or result, the connection after it, and the caller's buffer where it writes one.
  The error values keep the operands of the messages. Go's \<open>int\<close> is 64 bits wide, so
  \<open>int(nbyte)\<close> is exact; \<open>uint32(len(b))\<close> wraps.
\<close>

section \<open>The code\<close>

datatype frame_err =
    ErrReadUint32 io_err
  | ErrWriteUint32 io_err
  | ErrReadNbyte frame_err
  | ErrBufTooShort nat nat
  | ErrReadFullShort nat nat
  | ErrReadFull io_err
  | ErrWriteNbyte frame_err
  | ErrWriteBuf io_err
  | ErrWriteShort nat nat

definition ReadUint32 :: "conn \<Rightarrow> (frame_err + u32) \<times> conn" where
  "ReadUint32 rd =
     (case ReadFull rd (mkbuf 4) of
        (n, Some err, rd', bs) \<Rightarrow> (Inl (ErrReadUint32 err), rd')
      | (n, None, rd', bs) \<Rightarrow> (Inr (Uint32 bs), rd'))"

definition WriteUint32 :: "conn \<Rightarrow> u32 \<Rightarrow> frame_err option \<times> conn" where
  "WriteUint32 wr i =
     (case Write wr (PutUint32 i) of
        (n, Some err, wr') \<Rightarrow> (Some (ErrWriteUint32 err), wr')
      | (n, None, wr') \<Rightarrow> (None, wr'))"

definition ReadFrameInto :: "conn \<Rightarrow> byte list \<Rightarrow> (frame_err + nat) \<times> conn \<times> byte list" where
  "ReadFrameInto rd b =
     (case ReadUint32 rd of
        (Inl err, rd1) \<Rightarrow> (Inl (ErrReadNbyte err), rd1, b)
      | (Inr nbyte, rd1) \<Rightarrow>
          if unat nbyte > length b then (Inl (ErrBufTooShort (length b) (unat nbyte)), rd1, b)
          else
            (case ReadFull rd1 (take (unat nbyte) b) of
               (n, err, rd2, b1) \<Rightarrow>
                 let b2 = overwrite b1 b in
                 if n \<noteq> unat nbyte then (Inl (ErrReadFullShort n (unat nbyte)), rd2, b2)
                 else (case err of
                         Some e \<Rightarrow> (Inl (ErrReadFull e), rd2, b2)
                       | None \<Rightarrow> (Inr (unat nbyte), rd2, b2))))"

definition WriteFrame :: "conn \<Rightarrow> byte list \<Rightarrow> frame_err option \<times> conn" where
  "WriteFrame wr b =
     (let nbyte = (of_nat (length b) :: u32) in
      case WriteUint32 wr nbyte of
        (Some err, wr1) \<Rightarrow> (Some (ErrWriteNbyte err), wr1)
      | (None, wr1) \<Rightarrow>
          (case Write wr1 b of
             (n, Some err, wr2) \<Rightarrow> (Some (ErrWriteBuf err), wr2)
           | (n, None, wr2) \<Rightarrow>
               if n < length b then (Some (ErrWriteShort (unat nbyte) (length b)), wr2)
               else (None, wr2)))"

section \<open>The wire format\<close>

text \<open>What a frame looks like on the wire, and the length its header announces.\<close>

definition enc :: "byte list \<Rightarrow> byte list" where
  "enc p = PutUint32 (of_nat (length p)) @ p"

abbreviation announced :: "byte list \<Rightarrow> nat" where
  "announced p \<equiv> length p mod 2 ^ 32"

abbreviation fits_u32 :: "byte list \<Rightarrow> bool" where
  "fits_u32 p \<equiv> length p < 2 ^ 32"

lemma length_enc [simp]: "length (enc p) = 4 + length p"
  by (simp add: enc_def)

lemma enc_neq_Nil [simp]: "enc p \<noteq> []"
  by (simp add: enc_def PutUint32_def)

lemma enc_prefix_free:
  assumes "enc p @ xs = enc q @ ys" and "fits_u32 p" and "fits_u32 q"
  shows "p = q \<and> xs = ys"
proof -
  from assms(1) have hd: "PutUint32 (of_nat (length p)) = PutUint32 (of_nat (length q))"
    and tl: "p @ xs = q @ ys"
    by (simp_all add: enc_def)
  from hd have "(of_nat (length p) :: u32) = of_nat (length q)" by simp
  then have "length p = length q"
    using assms(2,3) by (metis unat_of_nat_u32_small)
  with tl show ?thesis by simp
qed

lemma concat_enc_inj:
  "concat (map enc ps) = concat (map enc qs) \<Longrightarrow> list_all fits_u32 ps \<Longrightarrow> list_all fits_u32 qs \<Longrightarrow> ps = qs"
proof (induction ps arbitrary: qs)
  case Nil
  then show ?case by (cases qs) (simp_all add: enc_neq_Nil[symmetric])
next
  case (Cons p ps)
  from Cons.prems(1) have "concat (map enc qs) \<noteq> []" by auto
  then obtain q qs' where qs: "qs = q # qs'" by (cases qs) simp_all
  with Cons.prems have "p = q \<and> concat (map enc ps) = concat (map enc qs')"
    by (intro enc_prefix_free) simp_all
  with qs Cons show ?case by simp
qed

section \<open>Reading and writing one integer\<close>

lemma ReadUint32_ok [io_simps]:
  "rx c = PutUint32 i @ rest \<Longrightarrow> ReadUint32 c = (Inr i, c\<lparr>rx := rest\<rparr>)"
  by (simp add: ReadUint32_def io_simps)

lemma ReadUint32_any:
  "4 \<le> length (rx c) \<Longrightarrow>
     ReadUint32 c = (Inr (Uint32 (take 4 (rx c))), c\<lparr>rx := drop 4 (rx c)\<rparr>)"
  by (simp add: ReadUint32_def io_simps)

lemma ReadUint32_short [io_simps]:
  "length (rx c) < 4 \<Longrightarrow>
     ReadUint32 c =
       (Inl (ErrReadUint32 (if rx c \<noteq> [] \<and> rx_end c = EOF then ErrUnexpectedEOF else rx_end c)),
        c\<lparr>rx := []\<rparr>)"
  by (simp add: ReadUint32_def io_simps)

lemma WriteUint32_ok [io_simps]:
  "room c 4 \<Longrightarrow> WriteUint32 c i = (None, sent c (PutUint32 i))"
  by (simp add: WriteUint32_def io_simps)

lemma WriteUint32_prefix:
  "WriteUint32 c i = (e, c') \<Longrightarrow> \<exists>k. c' = sent c (take k (PutUint32 i))"
  by (cases rule: Write_cases [of c "PutUint32 i"])
     (auto simp: WriteUint32_def split: option.splits intro: exI [of _ 4])

section \<open>Writing a frame\<close>

lemma WriteFrame_ok [io_simps]:
  "room c (4 + length b) \<Longrightarrow> WriteFrame c b = (None, sent c (enc b))"
proof -
  assume room: "room c (4 + length b)"
  then have "room c 4" by (rule room_mono) simp
  moreover have "room (sent c (PutUint32 (of_nat (length b)))) (length b)"
    using room by simp
  ultimately show ?thesis by (simp add: WriteFrame_def enc_def io_simps)
qed

text \<open>A writer that keeps its contract makes \<open>WriteFrame\<close> report every frame it could not write.\<close>

lemma WriteFrame_fails:
  assumes "\<not> room c (4 + length b)" and "wfail c \<noteq> None"
  shows "fst (WriteFrame c b) \<noteq> None"
proof -
  from assms(1) obtain k where k: "wcap c = Some k" "k < 4 + length b"
    by (auto simp: room_def split: option.splits)
  show ?thesis
  proof (cases "k < 4")
    case True
    with k assms(2) show ?thesis
      by (auto simp: WriteFrame_def WriteUint32_def Write_def Let_def split: option.splits)
  next
    case False
    with k assms(2) show ?thesis
      by (auto simp: WriteFrame_def WriteUint32_def Write_def Let_def split: option.splits)
  qed
qed

lemma WriteFrame_prefix:
  "\<exists>k. snd (WriteFrame c b) = sent c (take k (enc b))"
proof -
  obtain e c1 where w: "WriteUint32 c (of_nat (length b)) = (e, c1)" by fastforce
  show ?thesis
  proof (cases e)
    case (Some err)
    from WriteUint32_prefix [OF w] obtain k
      where "c1 = sent c (take k (PutUint32 (of_nat (length b))))" by blast
    then have "c1 = sent c (take (min k 4) (enc b))" by (simp add: enc_def min_def)
    with w Some show ?thesis by (auto simp: WriteFrame_def Let_def)
  next
    case None
    show ?thesis
    proof (cases rule: Write_cases [of c "PutUint32 (of_nat (length b))"])
      case all
      with w None have c1: "c1 = sent c (PutUint32 (of_nat (length b)))"
        by (simp add: WriteUint32_def)
      show ?thesis
      proof (cases rule: Write_cases [of c1 b])
        case all
        with w None c1 show ?thesis
          by (auto simp: WriteFrame_def Let_def enc_def intro!: exI [of _ "4 + length b"])
      next
        case (cut k)
        with w None c1 show ?thesis
          by (auto simp: WriteFrame_def Let_def enc_def split: option.splits intro!: exI [of _ "4 + k"])
      qed
    next
      case (cut k)
      with w None have c1: "c1 = sent c (take k (PutUint32 (of_nat (length b))))"
        and "wcap c1 = Some 0"
        by (auto simp: WriteUint32_def split: option.splits)
      with cut w None show ?thesis
        by (auto simp: WriteFrame_def Let_def enc_def Write_def split: option.splits intro!: exI [of _ k])
    qed
  qed
qed

section \<open>Reading a frame\<close>

text \<open>The four outcomes, by what is on the stream.\<close>

lemma ReadFrameInto_header_short:
  "length (rx c) < 4 \<Longrightarrow>
     ReadFrameInto c b =
       (Inl (ErrReadNbyte (ErrReadUint32
          (if rx c \<noteq> [] \<and> rx_end c = EOF then ErrUnexpectedEOF else rx_end c))), c\<lparr>rx := []\<rparr>, b)"
  by (simp add: ReadFrameInto_def io_simps)

lemma ReadFrameInto_too_long:
  "rx c = PutUint32 i @ body \<Longrightarrow> length b < unat i \<Longrightarrow>
     ReadFrameInto c b = (Inl (ErrBufTooShort (length b) (unat i)), c\<lparr>rx := body\<rparr>, b)"
  by (simp add: ReadFrameInto_def io_simps)

lemma ReadFrameInto_body_short:
  "rx c = PutUint32 i @ body \<Longrightarrow> unat i \<le> length b \<Longrightarrow> length body < unat i \<Longrightarrow>
     ReadFrameInto c b =
       (Inl (ErrReadFullShort (length body) (unat i)), c\<lparr>rx := []\<rparr>, overwrite body b)"
  using take_drop_rest [of "length body" "unat i" b]
  by (auto simp: ReadFrameInto_def io_simps Let_def min_def drop_take)

lemma ReadFrameInto_complete:
  "rx c = PutUint32 i @ body \<Longrightarrow> unat i \<le> length b \<Longrightarrow> unat i \<le> length body \<Longrightarrow>
     ReadFrameInto c b =
       (Inr (unat i), c\<lparr>rx := drop (unat i) body\<rparr>, overwrite (take (unat i) body) b)"
  by (simp add: ReadFrameInto_def io_simps Let_def min_def)

lemma ReadFrameInto_ok [io_simps]:
  "rx c = enc p @ rest \<Longrightarrow> fits_u32 p \<Longrightarrow> length p \<le> length b \<Longrightarrow>
     ReadFrameInto c b = (Inr (length p), c\<lparr>rx := rest\<rparr>, overwrite p b)"
  using ReadFrameInto_complete [of c "of_nat (length p)" "p @ rest" b]
  by (simp add: enc_def unat_of_nat_u32_small)

lemma split_header:
  assumes "4 \<le> length xs"
  shows "xs = PutUint32 (Uint32 (take 4 xs)) @ drop 4 xs"
proof -
  from assms obtain a b c d ys where xs: "xs = a # b # c # d # ys"
    by (auto simp: numeral_eq_Suc Suc_le_length_iff)
  have "PutUint32 (Uint32 [a, b, c, d]) = [a, b, c, d]"
    unfolding PutUint32_def Uint32_def list.case list.inject
    by (intro conjI refl; intro bit_word_eqI)
       (auto simp: bit_or_iff bit_push_bit_iff bit_ucast_iff bit_drop_bit_eq dest: bit_imp_le_length)
  with xs show ?thesis by simp
qed

section \<open>Framing as an interface\<close>

text \<open>
  What the RPC layer relies on: a frame that fits is put on the stream as a whole and taken
  off it as a whole, leaving the rest of the stream for the next frame. \<open>ok\<close> is the frames
  the link can carry.
\<close>

locale framed_link =
  fixes put :: "conn \<Rightarrow> byte list \<Rightarrow> frame_err option \<times> conn"
    and get :: "conn \<Rightarrow> byte list \<Rightarrow> (frame_err + nat) \<times> conn \<times> byte list"
    and wire :: "byte list \<Rightarrow> byte list"
    and ok :: "byte list \<Rightarrow> bool"
  assumes put_ok: "room c (length (wire p)) \<Longrightarrow> put c p = (None, sent c (wire p))"
    and get_ok: "rx c = wire p @ rest \<Longrightarrow> ok p \<Longrightarrow> length p \<le> length b \<Longrightarrow>
      get c b = (Inr (length p), c\<lparr>rx := rest\<rparr>, overwrite p b)"
begin

text \<open>Two frames in a row: the request of every RPC.\<close>

lemma put2:
  assumes "room c (length (wire p) + length (wire q))"
  shows "put c p = (None, sent c (wire p))"
    and "put (sent c (wire p)) q = (None, sent c (wire p @ wire q))"
proof -
  from assms have "room c (length (wire p))" by (rule room_mono) simp
  then show "put c p = (None, sent c (wire p))" by (rule put_ok)
  from assms have "room (sent c (wire p)) (length (wire q))" by simp
  then show "put (sent c (wire p)) q = (None, sent c (wire p @ wire q))" by (simp add: put_ok)
qed

lemma get2:
  assumes "rx c = wire p @ wire q @ rest" and "ok p" and "ok q"
    and "length p \<le> length a" and "length q \<le> length b"
  shows "get c a = (Inr (length p), c\<lparr>rx := wire q @ rest\<rparr>, overwrite p a)"
    and "get (c\<lparr>rx := wire q @ rest\<rparr>) b = (Inr (length q), c\<lparr>rx := rest\<rparr>, overwrite q b)"
  using assms by (simp_all add: get_ok)

text \<open>A reply of the request's length read back over the request.\<close>

lemma get_reply:
  "rx c = wire r @ rest \<Longrightarrow> ok r \<Longrightarrow> length r = length q \<Longrightarrow>
     get c q = (Inr (length q), c\<lparr>rx := rest\<rparr>, r)"
  by (simp add: get_ok)

end

interpretation fr: framed_link WriteFrame ReadFrameInto enc fits_u32
  by unfold_locales (simp_all add: io_simps)

text \<open>The four things a stream can hold in front of a reader with buffer \<open>b\<close>.\<close>

lemma stream_cases:
  obtains (header_short) "length (rx rd) < 4"
  | (too_long) i body where "rx rd = PutUint32 i @ body" "length b < unat i"
  | (body_short) i body where "rx rd = PutUint32 i @ body" "unat i \<le> length b" "length body < unat i"
  | (whole) i body where "rx rd = PutUint32 i @ body" "unat i \<le> length b" "unat i \<le> length body"
proof (cases "length (rx rd) < 4")
  case False
  then have "rx rd = PutUint32 (Uint32 (take 4 (rx rd))) @ drop 4 (rx rd)"
    using split_header [of "rx rd"] by simp
  with that(2-4) show ?thesis by (meson not_le)
qed (use that(1) in simp)

lemma ReadFrameInto_tx: "tx (fst (snd (ReadFrameInto rd b))) = tx rd"
  by (cases rule: stream_cases [where rd = rd and b = b])
    (simp_all add: ReadFrameInto_header_short ReadFrameInto_too_long ReadFrameInto_body_short
       ReadFrameInto_complete)

lemma ReadFrameInto_InrD:
  assumes "ReadFrameInto rd b = (Inr n, rd', b')"
  obtains i body where "rx rd = PutUint32 i @ body" "unat i = n" "n \<le> length b" "n \<le> length body"
    "rd' = rd\<lparr>rx := drop n body\<rparr>" "b' = take n body @ drop n b"
  using assms
  by (cases rule: stream_cases [where rd = rd and b = b])
    (auto simp: ReadFrameInto_header_short ReadFrameInto_too_long ReadFrameInto_body_short
       ReadFrameInto_complete min_def intro: that)

section \<open>Properties\<close>

text \<open>
  C15. Round trip: a frame of less than 4 GiB written by \<open>WriteFrame\<close> to a connection with
  room for it is read back by \<open>ReadFrameInto\<close> at the other end, whatever follows it on the
  stream: the result is its length, its bytes are the front of the reader's buffer, the
  rest of the buffer is unchanged, and the stream is left at the next frame.
\<close>

theorem frame_roundtrip:
  assumes "room wr (4 + length p)" and "length p < 2 ^ 32" and "length p \<le> length b"
    and "WriteFrame wr p = (e, wr')" and "tx wr' = tx wr @ w" and "rx rd = w @ rest"
  shows "e = None \<and> ReadFrameInto rd b = (Inr (length p), rd\<lparr>rx := rest\<rparr>, p @ drop (length p) b)"
proof -
  from assms have "e = None" and "w = enc p" by (auto simp: io_simps)
  with assms show ?thesis by (simp add: io_simps)
qed

theorem frame_roundtrip_witness:
  "ReadFrameInto (peer_sends (enc [1, 2, 3] @ [9])) [7, 7, 7, 7]
     = (Inr 3, peer_sends [9], [1, 2, 3, 7])"
proof -
  have "WriteFrame (peer_sends []) [1, 2, 3] = (None, sent (peer_sends []) (enc [1, 2, 3]))"
    by (simp add: io_simps)
  then have "ReadFrameInto (peer_sends (enc [1, 2, 3] @ [9])) [7, 7, 7, 7]
      = (Inr (length [1, 2, 3 :: byte]), (peer_sends (enc [1, 2, 3] @ [9]))\<lparr>rx := [9]\<rparr>,
         [1, 2, 3] @ drop (length [1, 2, 3 :: byte]) [7, 7, 7, 7])"
    using frame_roundtrip [of "peer_sends []" "[1, 2, 3]" "[7, 7, 7, 7]" None
        "sent (peer_sends []) (enc [1, 2, 3])" "enc [1, 2, 3]"
        "peer_sends (enc [1, 2, 3] @ [9])" "[9]"]
    by simp
  then show ?thesis by (simp add: peer_sends_def)
qed

text \<open>
  C16. \<open>ReadFrameInto\<close> on every stream: a header cut short, a frame longer than the buffer
  (its body stays unread on the stream), a body cut short (what arrived has been written
  into the buffer), and a whole frame. No other outcome exists; in particular the last
  error branch of the source is never taken.
\<close>

theorem ReadFrameInto_outcomes:
  "ReadFrameInto rd b =
     (if length (rx rd) < 4
      then (Inl (ErrReadNbyte (ErrReadUint32
              (if rx rd \<noteq> [] \<and> rx_end rd = EOF then ErrUnexpectedEOF else rx_end rd))),
            rd\<lparr>rx := []\<rparr>, b)
      else let n = unat (Uint32 (take 4 (rx rd))); body = drop 4 (rx rd) in
        if length b < n then (Inl (ErrBufTooShort (length b) n), rd\<lparr>rx := body\<rparr>, b)
        else if length body < n
        then (Inl (ErrReadFullShort (length body) n), rd\<lparr>rx := []\<rparr>, body @ drop (length body) b)
        else (Inr n, rd\<lparr>rx := drop n body\<rparr>, take n body @ drop n b))"
  by (cases rule: stream_cases [where rd = rd and b = b])
    (simp_all add: ReadFrameInto_header_short ReadFrameInto_too_long ReadFrameInto_body_short
       ReadFrameInto_complete Let_def min_def)

text \<open>
  C38. \<open>WriteFrame\<close> to a writer that keeps the \<open>io.Writer\<close> contract returns nil exactly when
  the transport takes header and body, and whatever it returns, what went out is a prefix
  of the frame's encoding, so a failed write never puts foreign bytes on the stream.
\<close>

theorem WriteFrame_reports:
  assumes "wfail wr \<noteq> None"
  shows "(fst (WriteFrame wr b) = None \<longleftrightarrow> room wr (4 + length b))
       \<and> (\<exists>k. tx (snd (WriteFrame wr b)) = tx wr @ take k (enc b))"
proof
  show "fst (WriteFrame wr b) = None \<longleftrightarrow> room wr (4 + length b)"
    using WriteFrame_fails [of wr b] assms by (metis WriteFrame_ok fst_conv)
  show "\<exists>k. tx (snd (WriteFrame wr b)) = tx wr @ take k (enc b)"
    using WriteFrame_prefix [of wr b] by (metis sent_simps(3))
qed

theorem WriteFrame_reports_witness:
  "fst (WriteFrame (peer_sends []\<lparr>wcap := Some 5\<rparr>) [1, 2]) \<noteq> None
     \<and> fst (WriteFrame (peer_sends []\<lparr>wcap := Some 6\<rparr>) [1, 2]) = None"
  using WriteFrame_reports [of "peer_sends []\<lparr>wcap := Some 5\<rparr>" "[1, 2]"]
    WriteFrame_reports [of "peer_sends []\<lparr>wcap := Some 6\<rparr>" "[1, 2]"]
  by (simp add: peer_sends_def room_def)

text \<open>
  The length field wraps: for a buffer of any length, the reader takes only
  \<open>len(b) mod 2^32\<close> bytes for the frame, and the bytes beyond that stay on the stream,
  where they would be read as the next header. \<open>WriteFrame\<close> reports success all the same.
\<close>

theorem WriteFrame_truncates:
  assumes "room wr (4 + length p)" and "rx rd = enc p @ rest" and "length p mod 2 ^ 32 \<le> length b"
  shows "fst (WriteFrame wr p) = None
       \<and> ReadFrameInto rd b =
          (Inr (length p mod 2 ^ 32), rd\<lparr>rx := drop (length p mod 2 ^ 32) p @ rest\<rparr>,
           overwrite (take (length p mod 2 ^ 32) p) b)"
proof -
  have "rx rd = PutUint32 (of_nat (length p)) @ p @ rest"
    using assms(2) by (simp add: enc_def)
  with assms show ?thesis
    using ReadFrameInto_complete [of rd "of_nat (length p)" "p @ rest" b]
    by (simp add: WriteFrame_ok unat_of_nat_u32)
qed

theorem WriteFrame_truncates_witness:
  "fst (WriteFrame (peer_sends []) (mkbuf (2 ^ 32 + 1))) = None
     \<and> fst (ReadFrameInto (peer_sends (enc (mkbuf (2 ^ 32 + 1)))) [0]) = Inr 1"
  using WriteFrame_truncates [of "peer_sends []" "mkbuf (2 ^ 32 + 1)"
      "peer_sends (enc (mkbuf (2 ^ 32 + 1)))" "[]" "[0]"]
  by simp

end
