(* ===== verification/Rpc.thy ===== *)
theory Rpc
  imports Frame
begin

text \<open>
  \<open>load-balancing/proxy/rpc/rpc.go\<close> (its copy \<open>tls/rpc/rpc.go\<close> is in \<open>TlsCopies\<close>): an RPC is an
  address frame and a payload frame one way and a payload frame back. Slices that the code
  passes down and reads into are returned updated: \<open>ClientRPC\<close> reads the reply over the
  request buffer, \<open>ProxyRPC\<close> works on the prefix \<open>b[:nbyte]\<close> of its buffer, which shares
  the buffer's memory. A count of RPCs is a Go \<open>int\<close>, sent as a \<open>uint32\<close>.
\<close>

section \<open>The code\<close>

datatype rpc_err = FrameErr frame_err | ErrWrongNumBytes nat nat

definition InformNRPC :: "conn \<Rightarrow> int \<Rightarrow> frame_err option \<times> conn" where
  "InformNRPC conn nrpc = WriteUint32 conn (of_int nrpc)"

definition GetNRPC :: "conn \<Rightarrow> (frame_err + int) \<times> conn" where
  "GetNRPC conn =
     (case ReadUint32 conn of
        (Inl err, conn') \<Rightarrow> (Inl err, conn')
      | (Inr nrpc, conn') \<Rightarrow> (Inr (uint nrpc), conn'))"

definition ClientRPC :: "byte list \<Rightarrow> conn \<Rightarrow> byte list \<Rightarrow> rpc_err option \<times> conn \<times> byte list" where
  "ClientRPC addr conn b =
     (case WriteFrame conn addr of
        (Some err, c1) \<Rightarrow> (Some (FrameErr err), c1, b)
      | (None, c1) \<Rightarrow>
     (case WriteFrame c1 b of
        (Some err, c2) \<Rightarrow> (Some (FrameErr err), c2, b)
      | (None, c2) \<Rightarrow>
     (case ReadFrameInto c2 b of
        (Inl err, c3, b') \<Rightarrow> (Some (FrameErr err), c3, b')
      | (Inr nbyte, c3, b') \<Rightarrow>
          if nbyte \<noteq> length b then (Some (ErrWrongNumBytes nbyte (length b)), c3, b')
          else (None, c3, b'))))"

definition ProxyRPC ::
  "byte list \<Rightarrow> conn \<Rightarrow> conn \<Rightarrow> byte list \<Rightarrow> rpc_err option \<times> byte list \<times> conn \<times> conn \<times> byte list" where
  "ProxyRPC addr cliConn srvConn b =
     (case ReadFrameInto cliConn addr of
        (Inl err, cli1, addr1) \<Rightarrow> (Some (FrameErr err), addr1, cli1, srvConn, b)
      | (Inr addrNByte, cli1, addr1) \<Rightarrow>
     (case ReadFrameInto cli1 b of
        (Inl err, cli2, b1) \<Rightarrow> (Some (FrameErr err), addr1, cli2, srvConn, b1)
      | (Inr nbyte, cli2, b1) \<Rightarrow>
     (case ClientRPC (take addrNByte addr1) srvConn (take nbyte b1) of
        (Some err, srv1, b2) \<Rightarrow> (Some err, addr1, cli2, srv1, overwrite b2 b1)
      | (None, srv1, b2) \<Rightarrow>
     (case WriteFrame cli2 b2 of
        (Some err, cli3) \<Rightarrow> (Some (FrameErr err), addr1, cli3, srv1, overwrite b2 b1)
      | (None, cli3) \<Rightarrow> (None, addr1, cli3, srv1, overwrite b2 b1)))))"

definition ServeRPC ::
  "byte list \<Rightarrow> conn \<Rightarrow> byte list \<Rightarrow> (rpc_err + nat \<times> nat) \<times> byte list \<times> conn \<times> byte list" where
  "ServeRPC addr conn b =
     (case ReadFrameInto conn addr of
        (Inl err, c1, addr1) \<Rightarrow> (Inl (FrameErr err), addr1, c1, b)
      | (Inr addrNByte, c1, addr1) \<Rightarrow>
     (case ReadFrameInto c1 b of
        (Inl err, c2, b1) \<Rightarrow> (Inl (FrameErr err), addr1, c2, b1)
      | (Inr nbyte, c2, b1) \<Rightarrow>
     (case WriteFrame c2 (take nbyte b1) of
        (Some err, c3) \<Rightarrow> (Inl (FrameErr err), addr1, c3, b1)
      | (None, c3) \<Rightarrow> (Inr (addrNByte, nbyte), addr1, c3, b1))))"

section \<open>The number of RPCs\<close>

text \<open>What the other side makes of a count: it survives when it is in the range of \<open>uint32\<close>.\<close>

definition wire_nrpc :: "int \<Rightarrow> int" where
  "wire_nrpc nrpc = nrpc mod 2 ^ 32"

lemma wire_nrpc_id [simp]: "0 \<le> nrpc \<Longrightarrow> nrpc < 2 ^ 32 \<Longrightarrow> wire_nrpc nrpc = nrpc"
  by (simp add: wire_nrpc_def)

lemma InformNRPC_ok [io_simps]:
  "room c 4 \<Longrightarrow> InformNRPC c nrpc = (None, sent c (PutUint32 (of_int nrpc)))"
  by (simp add: InformNRPC_def io_simps)

lemma GetNRPC_ok [io_simps]:
  "rx c = PutUint32 (of_int nrpc) @ rest \<Longrightarrow> GetNRPC c = (Inr (wire_nrpc nrpc), c\<lparr>rx := rest\<rparr>)"
  by (simp add: GetNRPC_def wire_nrpc_def io_simps uint_word_of_int)

section \<open>One RPC\<close>

text \<open>The request of an RPC on the wire.\<close>

definition request :: "byte list \<Rightarrow> byte list \<Rightarrow> byte list" where
  "request addr b = enc addr @ enc b"

lemma length_request [simp]: "length (request addr b) = 8 + length addr + length b"
  by (simp add: request_def)

lemma ClientRPC_ok [io_simps]:
  assumes "room c (length (request addr b))" and "rx c = enc r @ rest"
    and "fits_u32 b" and "length r = length b"
  shows "ClientRPC addr c b = (None, (sent c (request addr b))\<lparr>rx := rest\<rparr>, r)"
proof -
  from assms(1) have "room c (length (enc addr) + length (enc b))" by (simp add: request_def)
  note w = fr.put2 [OF this]
  have "ReadFrameInto (sent c (enc addr @ enc b)) b
      = (Inr (length b), (sent c (enc addr @ enc b))\<lparr>rx := rest\<rparr>, r)"
    using assms by (intro fr.get_reply) simp_all
  then show ?thesis by (simp add: ClientRPC_def w request_def)
qed

text \<open>The request goes out before the reply is looked at, whatever the peer sends.\<close>

lemma ClientRPC_sends:
  assumes "room c (length (request addr b))"
  shows "tx (fst (snd (ClientRPC addr c b))) = tx c @ request addr b"
proof -
  from assms have "room c (length (enc addr) + length (enc b))" by (simp add: request_def)
  note w = fr.put2 [OF this]
  obtain e c3 b' where r: "ReadFrameInto (sent c (enc addr @ enc b)) b = (e, c3, b')"
    by (metis prod_cases3)
  then have "tx c3 = tx c @ enc addr @ enc b"
    using ReadFrameInto_tx [of "sent c (enc addr @ enc b)" b] by simp
  with r w show ?thesis
    by (auto simp: ClientRPC_def request_def split: sum.splits)
qed

text \<open>A client whose peer has gone away stops with an error.\<close>

lemma ClientRPC_eof:
  assumes "room c (length (request addr b))" and "rx c = []"
  shows "ClientRPC addr c b =
    (Some (FrameErr (ErrReadNbyte (ErrReadUint32 (rx_end c)))), (sent c (request addr b))\<lparr>rx := []\<rparr>, b)"
proof -
  from assms have "room c (length (enc addr) + length (enc b))" by (simp add: request_def)
  note w = fr.put2 [OF this]
  with assms(2) show ?thesis
    by (simp add: ClientRPC_def request_def ReadFrameInto_header_short)
qed

lemma ServeRPC_ok [io_simps]:
  assumes "rx c = request p q @ rest" and "room c (length (enc q))"
    and "fits_u32 p" and "fits_u32 q" and "length p \<le> length addr" and "length q \<le> length b"
  shows "ServeRPC addr c b =
    (Inr (length p, length q), overwrite p addr, (sent c (enc q))\<lparr>rx := rest\<rparr>, overwrite q b)"
proof -
  from assms(1) have rx: "rx c = enc p @ enc q @ rest" by (simp add: request_def)
  note g = fr.get2 [OF rx assms(3-6)]
  have "WriteFrame (c\<lparr>rx := rest\<rparr>) q = (None, (sent c (enc q))\<lparr>rx := rest\<rparr>)"
    using assms(2) by (simp add: io_simps)
  then show ?thesis by (simp add: ServeRPC_def g)
qed

lemma ServeRPC_eof:
  "rx c = [] \<Longrightarrow>
     ServeRPC addr c b = (Inl (FrameErr (ErrReadNbyte (ErrReadUint32 (rx_end c)))), addr, c, b)"
  by (simp add: ServeRPC_def ReadFrameInto_header_short)

lemma ProxyRPC_ok [io_simps]:
  assumes "rx cli = request p q @ rest" and "rx srv = enc r @ rest'"
    and "room cli (length (enc r))" and "room srv (length (request p q))"
    and "fits_u32 p" and "fits_u32 q" and "length p \<le> length addr" and "length q \<le> length b"
    and "length r = length q"
  shows "ProxyRPC addr cli srv b =
    (None, overwrite p addr, (sent cli (enc r))\<lparr>rx := rest\<rparr>, (sent srv (request p q))\<lparr>rx := rest'\<rparr>,
     overwrite r b)"
proof -
  from assms(1) have rx: "rx cli = enc p @ enc q @ rest" by (simp add: request_def)
  note g = fr.get2 [OF rx assms(5-8)]
  have c: "ClientRPC p srv q = (None, (sent srv (request p q))\<lparr>rx := rest'\<rparr>, r)"
    using assms by (intro ClientRPC_ok) simp_all
  have "WriteFrame (cli\<lparr>rx := rest\<rparr>) r = (None, (sent cli (enc r))\<lparr>rx := rest\<rparr>)"
    using assms(3) by (simp add: io_simps)
  then show ?thesis
    using assms(9) by (simp add: ProxyRPC_def g c)
qed

section \<open>Properties\<close>

text \<open>
  The count of RPCs that \<open>GetNRPC\<close> returns is the one \<open>InformNRPC\<close> was given, modulo
  \<open>2^32\<close>: every count from 0 to \<open>2^32 - 1\<close> survives, and a negative count turns into a
  large positive one.
\<close>

theorem nrpc_roundtrip:
  assumes "InformNRPC cli nrpc = (None, cli')" and "room cli 4"
    and "tx cli' = tx cli @ w" and "rx srv = w @ rest"
  shows "GetNRPC srv = (Inr (nrpc mod 2 ^ 32), srv\<lparr>rx := rest\<rparr>)"
proof -
  from assms have "w = PutUint32 (of_int nrpc)" by (auto simp: io_simps)
  with assms show ?thesis using GetNRPC_ok [of srv nrpc rest] by (simp add: wire_nrpc_def)
qed

theorem nrpc_roundtrip_witness:
  "fst (GetNRPC (peer_sends (PutUint32 (of_int (- 1))))) = Inr 4294967295"
  using nrpc_roundtrip [of "peer_sends []" "- 1" "sent (peer_sends []) (PutUint32 (of_int (- 1)))"
      "PutUint32 (of_int (- 1))" "peer_sends (PutUint32 (of_int (- 1)))" "[]"]
  by (simp add: InformNRPC_ok)

text \<open>
  C17. An RPC through the proxy is transparent: given a request on the client connection and
  the server's reply of the same length, \<open>ProxyRPC\<close> forwards the address and the payload
  unchanged to the server, hands the server's reply unchanged to the client, consumes
  exactly one request and one reply, and leaves everything after them on the streams.
\<close>

theorem ProxyRPC_transparent:
  assumes "rx cli = enc p @ enc q @ rest" and "rx srv = enc r @ rest'" and "length r = length q"
    and "length p \<le> length addr" and "length q \<le> length b"
    and "length p < 2 ^ 32" and "length q < 2 ^ 32"
    and "room cli (4 + length r)" and "room srv (8 + length p + length q)"
    and "ProxyRPC addr cli srv b = (e, addr', cli', srv', b')"
  shows "e = None \<and> tx srv' = tx srv @ enc p @ enc q \<and> tx cli' = tx cli @ enc r
       \<and> rx cli' = rest \<and> rx srv' = rest'"
proof -
  have "ProxyRPC addr cli srv b =
    (None, overwrite p addr, (sent cli (enc r))\<lparr>rx := rest\<rparr>, (sent srv (request p q))\<lparr>rx := rest'\<rparr>,
     overwrite r b)"
    using assms by (intro ProxyRPC_ok) (simp_all add: request_def add.assoc)
  with assms show ?thesis by (auto simp: request_def)
qed

theorem ProxyRPC_transparent_witness:
  "tx (fst (snd (snd (snd (ProxyRPC (mkbuf 4) (peer_sends (enc [1] @ enc [2, 3]))
      (peer_sends (enc [4, 5])) (mkbuf 4)))))) = enc [1] @ enc [2, 3]"
proof -
  obtain e a c s b where
    r: "ProxyRPC (mkbuf 4) (peer_sends (enc [1] @ enc [2, 3])) (peer_sends (enc [4, 5])) (mkbuf 4)
        = (e, a, c, s, b)"
    by (metis prod_cases5)
  have "e = None \<and> tx s = tx (peer_sends (enc [4, 5])) @ enc [1] @ enc [2, 3]
      \<and> tx c = tx (peer_sends (enc [1] @ enc [2, 3])) @ enc [4, 5] \<and> rx c = [] \<and> rx s = []"
    by (rule ProxyRPC_transparent [OF _ _ _ _ _ _ _ _ _ r]) simp_all
  with r show ?thesis by simp
qed

text \<open>
  \<open>ServeRPC\<close> echoes: it answers a request with a frame of exactly the payload it was
  sent and reports both lengths; and \<open>ClientRPC\<close> on a connection where that answer arrives
  returns nil with the payload in its buffer.
\<close>

theorem ServeRPC_echoes:
  assumes "rx srv = enc p @ enc q @ rest" and "room srv (4 + length q)"
    and "length p < 2 ^ 32" and "length q < 2 ^ 32" and "length p \<le> length addr" and "length q \<le> length b"
    and "ServeRPC addr srv b = (res, addr', srv', b')"
    and "room cli (8 + length p + length q)" and "tx srv' = tx srv @ w" and "rx cli = w @ rest'"
  shows "res = Inr (length p, length q) \<and> w = enc q
       \<and> ClientRPC p cli q = (None, (sent cli (enc p @ enc q))\<lparr>rx := rest'\<rparr>, q)"
proof -
  have "ServeRPC addr srv b =
    (Inr (length p, length q), overwrite p addr, (sent srv (enc q))\<lparr>rx := rest\<rparr>, overwrite q b)"
    using assms by (intro ServeRPC_ok) (simp_all add: request_def)
  with assms have "res = Inr (length p, length q)" and w: "w = enc q" by auto
  moreover have "ClientRPC p cli q = (None, (sent cli (enc p @ enc q))\<lparr>rx := rest'\<rparr>, q)"
    using assms w ClientRPC_ok [of cli p q q "rest'"] by (simp add: request_def add.assoc)
  ultimately show ?thesis by simp
qed

theorem ServeRPC_echoes_witness:
  "ClientRPC [1] (peer_sends (enc [2, 3])) [2, 3]
     = (None, (sent (peer_sends (enc [2, 3])) (enc [1] @ enc [2, 3]))\<lparr>rx := []\<rparr>, [2, 3])"
proof -
  obtain res a s b where
    r: "ServeRPC (mkbuf 4) (peer_sends (enc [1] @ enc [2, 3])) (mkbuf 4) = (res, a, s, b)"
    by (metis prod_cases4)
  have "tx s = enc [2, 3]"
    using r ServeRPC_ok [of "peer_sends (enc [1] @ enc [2, 3])" "[1]" "[2, 3]" "[]" "mkbuf 4" "mkbuf 4"]
    by (auto simp: request_def)
  then show ?thesis
    using ServeRPC_echoes [OF _ _ _ _ _ _ r, of "[1]" "[2, 3]" "[]" "peer_sends (enc [2, 3])" "enc [2, 3]" "[]"]
    by simp
qed

text \<open>
  \<open>ClientRPC\<close> never reports success for a reply of another length: when it returns nil,
  the stream held a frame as long as the request, that frame is now the buffer, and the
  stream is past it.
\<close>

theorem ClientRPC_success:
  assumes "ClientRPC addr conn b = (None, conn', b')" and "room conn (8 + length addr + length b)"
  shows "\<exists>hdr. rx conn = PutUint32 hdr @ b' @ rx conn' \<and> unat hdr = length b \<and> length b' = length b"
proof -
  from assms(2) have "room conn (length (enc addr) + length (enc b))" by (simp add: add.assoc)
  note w = fr.put2 [OF this]
  let ?c = "sent conn (enc addr @ enc b)"
  from assms(1) w have r: "ReadFrameInto ?c b = (Inr (length b), conn', b')"
    by (auto simp: ClientRPC_def split: sum.splits prod.splits if_splits)
  then show ?thesis
    by (rule ReadFrameInto_InrD) (auto intro!: exI)
qed

theorem ClientRPC_success_witness:
  "\<exists>hdr. rx (peer_sends (enc [2, 3])) = PutUint32 hdr @ [2, 3] @ [] \<and> unat hdr = Suc (Suc 0)"
  using ClientRPC_success [of "[1]" "peer_sends (enc [2, 3])" "[8, 9]"
      "(sent (peer_sends (enc [2, 3])) (request [1] [8, 9]))\<lparr>rx := []\<rparr>" "[2, 3]"]
    ClientRPC_ok [of "peer_sends (enc [2, 3])" "[1]" "[8, 9]" "[2, 3]" "[]"]
  by simp

end
