(* ===== verification/GoStr.thy ===== *)
theory GoStr
  imports Prelude
begin

text \<open>
  The part of Go's \<open>strconv\<close> that the programs call on their arguments and in the names
  they build: \<open>Atoi\<close> and \<open>Itoa\<close>, with the 64-bit range of \<open>int\<close>.
\<close>

section \<open>Decimal digits\<close>

definition digit :: "nat \<Rightarrow> char" where
  "digit d = char_of (48 + d)"

definition digit_val :: "char \<Rightarrow> nat option" where
  "digit_val c = (let k = of_char c in if 48 \<le> k \<and> k < 58 then Some (k - 48) else None)"

lemma digit_val_digit [simp]: "d < 10 \<Longrightarrow> digit_val (digit d) = Some d"
  by (simp add: digit_val_def digit_def)

text \<open>\<open>strconv.Itoa\<close>: most significant digit first, a sign only for negative numbers.\<close>

fun digits_of :: "nat \<Rightarrow> string" where
  "digits_of n = (if n < 10 then [digit n] else digits_of (n div 10) @ [digit (n mod 10)])"

declare digits_of.simps [simp del]

definition Itoa :: "int \<Rightarrow> string" where
  "Itoa n = (if n < 0 then CHR ''-'' # digits_of (nat (- n)) else digits_of (nat n))"

fun parse_digits :: "nat \<Rightarrow> string \<Rightarrow> nat option" where
  "parse_digits acc [] = Some acc"
| "parse_digits acc (c # cs) =
     (case digit_val c of None \<Rightarrow> None | Some d \<Rightarrow> parse_digits (10 * acc + d) cs)"

definition in_int64 :: "int \<Rightarrow> bool" where
  "in_int64 n \<longleftrightarrow> - (2 ^ 63) \<le> n \<and> n < 2 ^ 63"

text \<open>An optional leading sign: whether it is a minus, and the rest.\<close>

definition split_sign :: "string \<Rightarrow> bool \<times> string" where
  "split_sign s =
     (if s \<noteq> [] \<and> hd s = CHR ''-'' then (True, tl s)
      else if s \<noteq> [] \<and> hd s = CHR ''+'' then (False, tl s)
      else (False, s))"

text \<open>\<open>strconv.Atoi\<close>; \<open>None\<close> stands for its syntax and range errors.\<close>

definition Atoi :: "string \<Rightarrow> int option" where
  "Atoi s =
     (let (neg, ds) = split_sign s
      in if ds = [] then None
         else (case parse_digits 0 ds of
                 None \<Rightarrow> None
               | Some v \<Rightarrow> let n = (if neg then - int v else int v) in
                            if in_int64 n then Some n else None))"

section \<open>Itoa is injective and Atoi inverts it\<close>

lemma parse_digits_append:
  "parse_digits acc (xs @ ys) =
     (case parse_digits acc xs of None \<Rightarrow> None | Some a \<Rightarrow> parse_digits a ys)"
  by (induction acc xs rule: parse_digits.induct) (auto split: option.splits)

lemma parse_digits_of: "parse_digits 0 (digits_of n) = Some n"
proof (induction n rule: digits_of.induct)
  case (1 n)
  then show ?case
    by (subst digits_of.simps) (auto simp: parse_digits_append)
qed

lemma digits_of_ne [simp]: "digits_of n \<noteq> []"
  by (subst digits_of.simps) simp

lemma digits_of_inj [simp]: "digits_of m = digits_of n \<longleftrightarrow> m = n"
  by (metis option.inject parse_digits_of)

lemma digits_of_chars: "c \<in> set (digits_of n) \<Longrightarrow> digit_val c \<noteq> None"
proof (induction n rule: digits_of.induct)
  case (1 n)
  then show ?case
    by (cases "n < 10") (auto simp: digits_of.simps [of n])
qed

lemma digit_val_signs [simp]: "digit_val CHR ''-'' = None" "digit_val CHR ''+'' = None"
  by (simp_all add: digit_val_def Let_def)

lemma digits_of_no_sign: "CHR ''-'' \<notin> set (digits_of n)" "CHR ''+'' \<notin> set (digits_of n)"
  using digits_of_chars by fastforce+

lemma Itoa_inj: "Itoa m = Itoa n \<longleftrightarrow> m = n"
proof
  assume eq: "Itoa m = Itoa n"
  show "m = n"
  proof (cases "m < 0"; cases "n < 0")
    assume "m < 0" "\<not> n < 0"
    with eq have "digits_of (nat n) = CHR ''-'' # digits_of (nat (- m))" by (simp add: Itoa_def)
    then show ?thesis using digits_of_no_sign(1) [of "nat n"] by simp
  next
    assume "\<not> m < 0" "n < 0"
    with eq have "digits_of (nat m) = CHR ''-'' # digits_of (nat (- n))" by (simp add: Itoa_def)
    then show ?thesis using digits_of_no_sign(1) [of "nat m"] by simp
  qed (use eq in \<open>auto simp: Itoa_def\<close>)
qed simp

lemma Atoi_Itoa:
  assumes "in_int64 n"
  shows "Atoi (Itoa n) = Some n"
proof (cases "n < 0")
  case True
  with assms show ?thesis by (simp add: Atoi_def Itoa_def parse_digits_of split_sign_def)
next
  case False
  have "hd (digits_of (nat n)) \<noteq> CHR ''-''" "hd (digits_of (nat n)) \<noteq> CHR ''+''"
    using digits_of_no_sign [of "nat n"] by (metis digits_of_ne list.set_sel(1))+
  with False assms show ?thesis by (simp add: Atoi_def Itoa_def parse_digits_of split_sign_def)
qed

end
