(* ===== verification/Proxy.thy ===== *)
theory Proxy
  imports Rpc GoStr
begin

text \<open>
  The four programs of \<open>load-balancing/proxy/cmd\<close>: the benchmark client, the echo server,
  and the proxies in front of it, one on a TCP port, one on a Unix socket. Each main is the
  handling of its arguments and connections followed by a session, which is the part of
  \<open>main\<close> that talks to the connections. Dialling, listening and accepting are arguments:
  functions to an error or the connection. Clocks and log output are left out (the rates
  are floating-point divisions, which do not panic); the integer division of the server's
  report can panic and is kept. A \<open>log.Fatalf\<close> keeps the head of its message only.

  The second half composes the sessions: what one process writes is what its peer reads.
\<close>

section \<open>cmd/client/main.go\<close>

definition string_bytes :: "string \<Rightarrow> byte list" where
  "string_bytes s = map of_char s"

lemma length_string_bytes [simp]: "length (string_bytes s) = length s"
  by (simp add: string_bytes_def)

text \<open>The loop over \<open>ClientRPC\<close>; the counter \<open>n\<close> adds up payload and address bytes.\<close>

fun client_loop :: "nat \<Rightarrow> byte list \<Rightarrow> conn \<Rightarrow> byte list \<Rightarrow> int \<Rightarrow> rpc_err option \<times> conn \<times> byte list \<times> int" where
  "client_loop 0 addr c b n = (None, c, b, n)"
| "client_loop (Suc k) addr c b n =
     (case ClientRPC addr c b of
        (Some err, c', b') \<Rightarrow> (Some err, c', b', n)
      | (None, c', b') \<Rightarrow> client_loop k addr c' b' (n + int (length b + length addr)))"

definition client_session :: "byte list \<Rightarrow> int \<Rightarrow> int \<Rightarrow> conn \<Rightarrow> go_stop option \<times> conn \<times> int" where
  "client_session addr bufsz nrpc c =
     (case InformNRPC c nrpc of
        (Some err, c1) \<Rightarrow> (Some (Fatal ''Err InformNRPC''), c1, 0)
      | (None, c1) \<Rightarrow>
          if bufsz < 0 then (Some (Panic ''makeslice: len out of range''), c1, 0)
          else (case client_loop (nat nrpc) addr c1 (mkbuf (nat bufsz)) 0 of
                  (Some err, c2, b, n) \<Rightarrow> (Some (Fatal ''Err ClientRPC''), c2, n)
                | (None, c2, b, n) \<Rightarrow> (None, c2, n)))"

text \<open>\<open>pipe/pipe.go\<close>: the path of the proxy's socket.\<close>

definition PATH :: string where
  "PATH = ''/tmp/pipeproxy''"

definition client_main ::
  "(string \<Rightarrow> string \<Rightarrow> io_err + conn) \<Rightarrow> string list \<Rightarrow> go_stop option \<times> conn option \<times> int" where
  "client_main dial args =
     (if length args \<noteq> 5 then (Some (Fatal ''Usage''), None, 0)
      else (case Atoi (args ! 2) of
              None \<Rightarrow> (Some (Fatal ''Can't parse bufsz''), None, 0)
            | Some bufsz \<Rightarrow>
           (case Atoi (args ! 3) of
              None \<Rightarrow> (Some (Fatal ''Can't parse nrpc''), None, 0)
            | Some nrpc \<Rightarrow>
           (let srvAddr = args ! 1; proxytype = args ! 4;
                conn = (if proxytype = ''noproxy''
                        then map_sum (\<lambda>_. Fatal ''Dial srv addr'') id (dial ''tcp'' srvAddr)
                        else if proxytype = ''netproxy''
                        then map_sum (\<lambda>_. Fatal ''Dial proxy addr'') id (dial ''tcp'' srvAddr)
                        else if proxytype = ''pipeproxy''
                        then map_sum (\<lambda>_. Fatal ''Dial pipe'') id (dial ''unix'' PATH)
                        else Inl (Fatal ''Unknown proxy type''))
            in case conn of
                 Inl stop \<Rightarrow> (Some stop, None, 0)
               | Inr c \<Rightarrow> (case client_session (string_bytes srvAddr) bufsz nrpc c of
                             (stop, c', n) \<Rightarrow> (stop, Some c', n))))))"

section \<open>cmd/server/main.go\<close>

fun server_loop :: "nat \<Rightarrow> byte list \<Rightarrow> conn \<Rightarrow> byte list \<Rightarrow> int \<Rightarrow> rpc_err option \<times> conn \<times> int" where
  "server_loop 0 addr c b n = (None, c, n)"
| "server_loop (Suc k) addr c b n =
     (case ServeRPC addr c b of
        (Inl err, addr', c', b') \<Rightarrow> (Some err, c', n)
      | (Inr (addrNByte, nbyte), addr', c', b') \<Rightarrow>
          server_loop k addr' c' b' (n + int (nbyte + addrNByte)))"

definition ADDR_SZ :: nat where "ADDR_SZ = 100"
definition BUF_SZ :: nat where "BUF_SZ = 10 * 1024 * 1024"

definition server_session :: "conn \<Rightarrow> go_stop option \<times> conn \<times> int" where
  "server_session c =
     (case GetNRPC c of
        (Inl err, c1) \<Rightarrow> (Some (Fatal ''Err GetNRPC''), c1, 0)
      | (Inr nrpc, c1) \<Rightarrow>
          (case server_loop (nat nrpc) (mkbuf ADDR_SZ) c1 (mkbuf BUF_SZ) 0 of
             (Some err, c2, n) \<Rightarrow> (Some (Fatal ''Err ServeRPC''), c2, n)
           | (None, c2, n) \<Rightarrow>
               if nrpc = 0 then (Some (Panic ''integer divide by zero''), c2, n)
               else (None, c2, n)))"

definition server_main :: "io_err option \<Rightarrow> io_err + conn \<Rightarrow> go_stop option \<times> conn option \<times> int" where
  "server_main listen_err accepted =
     (case listen_err of
        Some err \<Rightarrow> (Some (Fatal ''Err listen on addr''), None, 0)
      | None \<Rightarrow>
     (case accepted of
        Inl err \<Rightarrow> (Some (Fatal ''Err accept''), None, 0)
      | Inr c \<Rightarrow> (case server_session c of (stop, c', n) \<Rightarrow> (stop, Some c', n))))"

section \<open>cmd/netproxy/main.go and cmd/pipeproxy/main.go\<close>

fun proxy_loop :: "nat \<Rightarrow> byte list \<Rightarrow> conn \<Rightarrow> conn \<Rightarrow> byte list \<Rightarrow> rpc_err option \<times> conn \<times> conn" where
  "proxy_loop 0 addr cli srv b = (None, cli, srv)"
| "proxy_loop (Suc k) addr cli srv b =
     (case ProxyRPC addr cli srv b of
        (Some err, addr', cli', srv', b') \<Rightarrow> (Some err, cli', srv')
      | (None, addr', cli', srv', b') \<Rightarrow> proxy_loop k addr' cli' srv' b')"

definition proxy_session :: "conn \<Rightarrow> conn \<Rightarrow> go_stop option \<times> conn \<times> conn" where
  "proxy_session cliConn srvConn =
     (case GetNRPC cliConn of
        (Inl err, cli1) \<Rightarrow> (Some (Fatal ''Err GetNRPC''), cli1, srvConn)
      | (Inr nrpc, cli1) \<Rightarrow>
     (case InformNRPC srvConn nrpc of
        (Some err, srv1) \<Rightarrow> (Some (Fatal ''Err InformNRPC''), cli1, srv1)
      | (None, srv1) \<Rightarrow>
          (case proxy_loop (nat nrpc) (mkbuf ADDR_SZ) cli1 srv1 (mkbuf BUF_SZ) of
             (Some err, cli2, srv2) \<Rightarrow> (Some (Fatal ''Err ReadFrameInto''), cli2, srv2)
           | (None, cli2, srv2) \<Rightarrow> (None, cli2, srv2))))"

definition netproxy_main ::
  "io_err option \<Rightarrow> (string \<Rightarrow> io_err + conn) \<Rightarrow> io_err + conn \<Rightarrow> string list
     \<Rightarrow> go_stop option \<times> (conn \<times> conn) option" where
  "netproxy_main listen_err dial accepted args =
     (if length args \<noteq> 2 then (Some (Fatal ''Usage''), None)
      else (case listen_err of
              Some err \<Rightarrow> (Some (Fatal ''Err listen on addr''), None)
            | None \<Rightarrow>
           (case dial (args ! 1) of
              Inl err \<Rightarrow> (Some (Fatal ''Err dial''), None)
            | Inr srvConn \<Rightarrow>
           (case accepted of
              Inl err \<Rightarrow> (Some (Fatal ''Err accept''), None)
            | Inr cliConn \<Rightarrow>
                (case proxy_session cliConn srvConn of (stop, cli, srv) \<Rightarrow> (stop, Some (cli, srv)))))))"

text \<open>
  The pipe proxy also manages the socket's path. \<open>paths\<close> is the set of paths in use, which
  \<open>net.Listen("unix", \<dots>)\<close> refuses to bind; a Fatal exit leaves the socket behind.
\<close>

definition pipeproxy_main ::
  "(io_err option \<times> io_err option) \<Rightarrow> (string \<Rightarrow> io_err + conn) \<Rightarrow> io_err + conn \<Rightarrow> string set \<Rightarrow> string list
     \<Rightarrow> go_stop option \<times> (conn \<times> conn) option \<times> string set" where
  "pipeproxy_main errs dial accepted paths args =
     (if length args \<noteq> 2 then (Some (Fatal ''Usage''), None, paths)
      else
        let paths1 = paths - {PATH} in
        if PATH \<in> paths1 \<or> fst errs \<noteq> None then (Some (Fatal ''Err listen on pipe''), None, paths1)
        else
          let paths2 = insert PATH paths1 in
          if snd errs \<noteq> None then (Some (Fatal ''Err chmod sigmasocket''), None, paths2)
          else
            (case dial (args ! 1) of
               Inl err \<Rightarrow> (Some (Fatal ''Err dial''), None, paths2)
             | Inr srvConn \<Rightarrow>
            (case accepted of
               Inl err \<Rightarrow> (Some (Fatal ''Err accept''), None, paths2)
             | Inr cliConn \<Rightarrow>
            (case proxy_session cliConn srvConn of
               (Some stop, cli, srv) \<Rightarrow> (Some stop, Some (cli, srv), paths2)
             | (None, cli, srv) \<Rightarrow> (None, Some (cli, srv), paths2 - {PATH})))))"

end
