(* ===== verification/Network.thy ===== *)
theory Network
  imports Proxy
begin

text \<open>
  The programs of \<open>cmd/\<close> wired together. Each session is a deterministic function from the
  bytes its peers send to the bytes it sends, so the system is the least solution of the
  equations "what I read is what you wrote"; it is computed by iterating from empty
  streams. A session run on a stream that is only a prefix of what will arrive stops with
  an end-of-file error, but the bytes it has written by then are exactly those it writes
  before it needs more input, so the iteration follows the causal order of the bytes and
  ends at a fixed point in which every byte read has been written.
\<close>

section \<open>Sessions on prefixes of the streams\<close>

definition eof_err :: rpc_err where
  "eof_err = FrameErr (ErrReadNbyte (ErrReadUint32 EOF))"

lemma room_unlimited [simp]: "wcap c = None \<Longrightarrow> room c n"
  by (simp add: room_def)

lemma client_loop_done:
  assumes "wcap c = None" and "rx c = repeated k (enc q) @ rest" and "fits_u32 q"
  shows "client_loop k addr c q n =
    (None, (sent c (repeated k (request addr q)))\<lparr>rx := rest\<rparr>, q, n + int k * int (length q + length addr))"
  using assms(1,2)
proof (induction k arbitrary: c n)
  case (Suc k)
  then have "ClientRPC addr c q =
      (None, (sent c (request addr q))\<lparr>rx := repeated k (enc q) @ rest\<rparr>, q)"
    using assms(3) by (intro ClientRPC_ok) simp_all
  with Suc show ?case by (simp add: algebra_simps)
qed simp

lemma client_loop_waits:
  assumes "wcap c = None" and "rx_end c = EOF" and "rx c = repeated j (enc q)" and "j < k" and "fits_u32 q"
  shows "client_loop k addr c q n =
    (Some eof_err, (sent c (repeated (Suc j) (request addr q)))\<lparr>rx := []\<rparr>, q,
     n + int j * int (length q + length addr))"
  using assms(1-4)
proof (induction j arbitrary: c n k)
  case 0
  then obtain k' where "k = Suc k'" by (cases k) simp_all
  with 0 show ?case by (simp add: ClientRPC_eof eof_err_def)
next
  case (Suc j)
  then obtain k' where k': "k = Suc k'" "j < k'" by (cases k) simp_all
  with Suc.prems have "ClientRPC addr c q =
      (None, (sent c (request addr q))\<lparr>rx := repeated j (enc q)\<rparr>, q)"
    using assms(5) by (intro ClientRPC_ok) simp_all
  with Suc k' show ?case by (simp add: algebra_simps)
qed

lemma server_loop_step:
  assumes "wcap c = None" and "rx c = request p q @ rest" and "fits_u32 p" and "fits_u32 q"
    and "length p \<le> length addr" and "length q \<le> length b"
  shows "server_loop (Suc k) addr c b n =
    server_loop k (overwrite p addr) ((sent c (enc q))\<lparr>rx := rest\<rparr>) (overwrite q b)
      (n + int (length q + length p))"
  using assms by (simp add: ServeRPC_ok)

lemma server_loop_done:
  assumes "wcap c = None" and "rx c = repeated k (request p q) @ rest" and "fits_u32 p" and "fits_u32 q"
    and "length p \<le> length addr" and "length q \<le> length b"
  shows "server_loop k addr c b n =
    (None, (sent c (repeated k (enc q)))\<lparr>rx := rest\<rparr>, n + int k * int (length q + length p))"
  using assms
proof (induction k arbitrary: c n addr b)
  case (Suc k)
  then show ?case by (simp add: server_loop_step [of c p q "repeated k (request p q) @ rest"] algebra_simps
        del: server_loop.simps(2))
qed simp

lemma server_loop_waits:
  assumes "wcap c = None" and "rx_end c = EOF" and "rx c = repeated j (request p q)" and "j < k"
    and "fits_u32 p" and "fits_u32 q" and "length p \<le> length addr" and "length q \<le> length b"
  shows "server_loop k addr c b n =
    (Some eof_err, (sent c (repeated j (enc q)))\<lparr>rx := []\<rparr>, n + int j * int (length q + length p))"
  using assms
proof (induction j arbitrary: c n k addr b)
  case 0
  then obtain k' where "k = Suc k'" by (cases k) simp_all
  with 0 show ?case by (simp add: ServeRPC_eof eof_err_def)
next
  case (Suc j)
  then obtain k' where k': "k = Suc k'" "j < k'" by (cases k) simp_all
  with Suc show ?case
    by (simp add: server_loop_step [of c p q "repeated j (request p q)"] algebra_simps del: server_loop.simps(2))
qed






section \<open>Sessions as stream functions\<close>

definition client_out :: "byte list \<Rightarrow> int \<Rightarrow> int \<Rightarrow> byte list \<Rightarrow> byte list" where
  "client_out addr bufsz nrpc replies = tx (fst (snd (client_session addr bufsz nrpc (peer_sends replies))))"

definition server_out :: "byte list \<Rightarrow> byte list" where
  "server_out reqs = tx (fst (snd (server_session (peer_sends reqs))))"



text \<open>What a client sends over a whole session, and what it has sent after \<open>k\<close> replies.\<close>

abbreviation payload :: "int \<Rightarrow> byte list" where
  "payload bufsz \<equiv> mkbuf (nat bufsz)"

definition requests :: "byte list \<Rightarrow> int \<Rightarrow> int \<Rightarrow> nat \<Rightarrow> byte list" where
  "requests addr bufsz nrpc k = PutUint32 (of_int nrpc) @ repeated k (request addr (payload bufsz))"

definition replies :: "int \<Rightarrow> nat \<Rightarrow> byte list" where
  "replies bufsz k = repeated k (enc (payload bufsz))"

text \<open>The arguments with which every program of \<open>cmd/\<close> can play its part.\<close>

definition session_args :: "byte list \<Rightarrow> int \<Rightarrow> int \<Rightarrow> bool" where
  "session_args addr bufsz nrpc \<longleftrightarrow>
     length addr \<le> ADDR_SZ \<and> 0 \<le> bufsz \<and> bufsz \<le> int BUF_SZ \<and> 0 < nrpc \<and> nrpc < 2 ^ 32"

lemma session_argsD:
  assumes "session_args addr bufsz nrpc"
  shows "fits_u32 addr" "fits_u32 (payload bufsz)" "length addr \<le> ADDR_SZ"
    "nat bufsz \<le> BUF_SZ" "0 \<le> bufsz" "wire_nrpc nrpc = nrpc" "0 < nrpc"
  using assms by (auto simp: session_args_def ADDR_SZ_def BUF_SZ_def)

lemma client_session_done:
  assumes "session_args addr bufsz nrpc"
  shows "client_session addr bufsz nrpc (peer_sends (replies bufsz (nat nrpc))) =
    (None, (sent (peer_sends (replies bufsz (nat nrpc))) (requests addr bufsz nrpc (nat nrpc)))\<lparr>rx := []\<rparr>,
     nrpc * (bufsz + int (length addr)))"
  using session_argsD [OF assms]
  by (simp add: client_session_def InformNRPC_ok replies_def requests_def
      client_loop_done [where rest = "[]"])

lemma client_session_waits:
  assumes "session_args addr bufsz nrpc" and "k < nat nrpc"
  shows "client_out addr bufsz nrpc (replies bufsz k) = requests addr bufsz nrpc (Suc k)"
  using session_argsD [OF assms(1)] assms(2)
  by (simp add: client_out_def client_session_def InformNRPC_ok replies_def requests_def
      client_loop_waits [where j = k])

lemma server_session_done:
  assumes "session_args addr bufsz nrpc"
  shows "server_session (peer_sends (requests addr bufsz nrpc (nat nrpc))) =
    (None, (sent (peer_sends (requests addr bufsz nrpc (nat nrpc))) (replies bufsz (nat nrpc)))\<lparr>rx := []\<rparr>,
     nrpc * (bufsz + int (length addr)))"
  using session_argsD [OF assms]
  by (simp add: server_session_def replies_def requests_def GetNRPC_ok [where nrpc = nrpc]
      server_loop_done [where rest = "[]" and p = addr and q = "payload bufsz"])

lemma server_session_waits:
  assumes "session_args addr bufsz nrpc" and "k \<le> nat nrpc"
  shows "server_out (requests addr bufsz nrpc k) = replies bufsz k"
proof (cases "k = nat nrpc")
  case True
  with server_session_done [OF assms(1)] show ?thesis by (simp add: server_out_def)
next
  case False
  with assms(2) have "k < nat nrpc" by simp
  then show ?thesis
    using session_argsD [OF assms(1)]
    by (simp add: server_out_def server_session_def replies_def requests_def
        GetNRPC_ok [where nrpc = nrpc] server_loop_waits [where j = k and p = addr and q = "payload bufsz"])
qed



section \<open>The wired systems\<close>

text \<open>
  One round of the iteration: the client runs on the replies so far and the server on what
  the client sent; with a proxy, the proxy passes the requests on, the server answers and
  the proxy passes the answers back.
\<close>

definition direct_round :: "byte list \<Rightarrow> int \<Rightarrow> int \<Rightarrow> byte list \<Rightarrow> byte list" where
  "direct_round addr bufsz nrpc r = server_out (client_out addr bufsz nrpc r)"


lemma client_out_done:
  "session_args addr bufsz nrpc \<Longrightarrow>
     client_out addr bufsz nrpc (replies bufsz (nat nrpc)) = requests addr bufsz nrpc (nat nrpc)"
  by (simp add: client_out_def client_session_done)

lemma direct_rounds:
  assumes "session_args addr bufsz nrpc" and "k \<le> nat nrpc"
  shows "(direct_round addr bufsz nrpc ^^ k) [] = replies bufsz k"
  using assms(2)
proof (induction k)
  case (Suc k)
  then show ?case
    using assms(1) by (simp add: direct_round_def client_session_waits server_session_waits)
qed (simp add: replies_def)


text \<open>
  C11. Client and server wired directly: after as many rounds as RPCs the streams are at a
  fixed point on which both programs end without error, and both report the same number of
  bytes, \<open>nrpc * (bufsz + length addr)\<close>. Neither ever waits for bytes the other has not
  sent.
\<close>

theorem direct_session_completes:
  assumes "session_args addr bufsz nrpc"
  defines "r \<equiv> (direct_round addr bufsz nrpc ^^ nat nrpc) []"
  shows "direct_round addr bufsz nrpc r = r
    \<and> (\<exists>c. client_session addr bufsz nrpc (peer_sends r) = (None, c, nrpc * (bufsz + int (length addr))))
    \<and> (\<exists>c. server_session (peer_sends (client_out addr bufsz nrpc r))
            = (None, c, nrpc * (bufsz + int (length addr))))"
proof -
  have r: "r = replies bufsz (nat nrpc)"
    unfolding r_def by (rule direct_rounds [OF assms(1)]) simp
  show ?thesis
    by (simp add: r direct_round_def client_out_done [OF assms(1)] server_session_waits [OF assms(1)]
        client_session_done [OF assms(1)] server_session_done [OF assms(1)])
qed

theorem direct_session_completes_witness:
  "\<exists>c. server_session (peer_sends (client_out [1, 2] 3 2 ((direct_round [1, 2] 3 2 ^^ 2) [])))
     = (None, c, 10)"
proof -
  have "session_args [1, 2] 3 2" by (simp add: session_args_def ADDR_SZ_def BUF_SZ_def)
  from direct_session_completes [OF this] show ?thesis by auto
qed



text \<open>
  The buffers of server and proxy bound what a client may use: with an address of more
  than 100 bytes, or a payload of more than 10 MiB, the server stops with a Fatal error on
  the first RPC and sends no reply, although the client's own checks accept both.
\<close>

theorem server_limits:
  assumes "0 < nrpc" and "nrpc < 2 ^ 32" and "length addr < 2 ^ 32" and "0 \<le> bufsz" and "bufsz < 2 ^ 32"
    and "ADDR_SZ < length addr \<or> int BUF_SZ < bufsz"
  shows "\<exists>c n. server_session (peer_sends (client_out addr bufsz nrpc []))
    = (Some (Fatal ''Err ServeRPC''), c, n) \<and> tx c = []"
proof -
  obtain k where k: "nat nrpc = Suc k" using assms(1) by (cases "nat nrpc") simp_all
  let ?q = "payload bufsz"
  have "client_out addr bufsz nrpc [] = PutUint32 (of_int nrpc) @ request addr ?q"
    using assms client_loop_waits [of "sent (peer_sends []) (PutUint32 (of_int nrpc))" 0 ?q "Suc k" addr 0] k
    by (simp add: client_out_def client_session_def InformNRPC_ok del: client_loop.simps)
  then have out: "client_out addr bufsz nrpc [] = PutUint32 (of_int nrpc) @ enc addr @ enc ?q"
    by (simp add: request_def)
  define c where "c = (peer_sends (PutUint32 (of_int nrpc) @ enc addr @ enc ?q))\<lparr>rx := enc addr @ enc ?q\<rparr>"
  have get: "GetNRPC (peer_sends (PutUint32 (of_int nrpc) @ enc addr @ enc ?q)) = (Inr nrpc, c)"
    using assms by (simp add: GetNRPC_ok [where nrpc = nrpc] c_def)
  have "\<exists>err a c' b. ServeRPC (mkbuf ADDR_SZ) c (mkbuf BUF_SZ) = (Inl err, a, c', b) \<and> tx c' = []"
  proof (cases "ADDR_SZ < length addr")
    case True
    then have "ReadFrameInto c (mkbuf ADDR_SZ)
        = (Inl (ErrBufTooShort ADDR_SZ (length addr)), c\<lparr>rx := addr @ enc ?q\<rparr>, mkbuf ADDR_SZ)"
      using assms(3) ReadFrameInto_too_long [of c "of_nat (length addr)" "addr @ enc ?q" "mkbuf ADDR_SZ"]
      by (simp add: c_def enc_def unat_of_nat_u32_small)
    then show ?thesis by (simp add: ServeRPC_def c_def)
  next
    case False
    then have "ReadFrameInto c (mkbuf ADDR_SZ)
        = (Inr (length addr), c\<lparr>rx := enc ?q\<rparr>, overwrite addr (mkbuf ADDR_SZ))"
      using assms(3) by (intro fr.get_ok) (simp_all add: c_def)
    moreover have "ReadFrameInto (c\<lparr>rx := enc ?q\<rparr>) (mkbuf BUF_SZ)
        = (Inl (ErrBufTooShort BUF_SZ (length ?q)), (c\<lparr>rx := enc ?q\<rparr>)\<lparr>rx := ?q\<rparr>, mkbuf BUF_SZ)"
      using False assms
        ReadFrameInto_too_long [of "c\<lparr>rx := enc ?q\<rparr>" "of_nat (length ?q)" ?q "mkbuf BUF_SZ"]
      by (simp add: enc_def unat_of_int_u32)
    ultimately show ?thesis by (simp add: ServeRPC_def c_def)
  qed
  then show ?thesis by (auto simp: server_session_def out get k)
qed

theorem server_limits_witness:
  "\<exists>c n. server_session (peer_sends (client_out (mkbuf 101) 8 1 []))
    = (Some (Fatal ''Err ServeRPC''), c, n) \<and> tx c = []"
  using server_limits [of 1 "mkbuf 101" 8] by (simp add: ADDR_SZ_def)

text \<open>
  Counts outside the wire's range: a client told to do no RPCs, or a negative number of
  them, ends at once without error; the server then divides by zero, respectively waits for
  RPCs that never come and stops with a Fatal error when the client closes.
\<close>

theorem degenerate_counts:
  assumes "nrpc \<le> 0" and "- (2 ^ 32) < nrpc" and "0 \<le> bufsz"
  shows "fst (client_session addr bufsz nrpc (peer_sends [])) = None
    \<and> fst (server_session (peer_sends (client_out addr bufsz nrpc [])))
      = Some (if nrpc = 0 then Panic ''integer divide by zero'' else Fatal ''Err ServeRPC'')"
proof -
  have out: "client_out addr bufsz nrpc [] = PutUint32 (of_int nrpc) @ []"
    and cli: "fst (client_session addr bufsz nrpc (peer_sends [])) = None"
    using assms by (simp_all add: client_out_def client_session_def InformNRPC_ok)
  let ?c = "(peer_sends (PutUint32 (of_int nrpc) @ []))\<lparr>rx := []\<rparr>"
  have get: "GetNRPC (peer_sends (PutUint32 (of_int nrpc) @ [])) = (Inr (nrpc mod 2 ^ 32), ?c)"
    using GetNRPC_ok [of "peer_sends (PutUint32 (of_int nrpc) @ [])" nrpc "[]"] by (simp add: wire_nrpc_def)
  show ?thesis
  proof (cases "nrpc = 0")
    case True
    show ?thesis using out get cli unfolding True by (simp add: server_session_def)
  next
    case False
    with assms have "(nrpc + 2 ^ 32) mod 2 ^ 32 = nrpc + 2 ^ 32"
      by (intro mod_pos_pos_trivial) simp_all
    then have "nrpc mod 2 ^ 32 = nrpc + 2 ^ 32" by (simp only: mod_add_self2)
    with False assms obtain k where "nat (nrpc mod 2 ^ 32) = Suc k"
      by (cases "nat (nrpc mod 2 ^ 32)") simp_all
    with False get cli show ?thesis by (simp add: out server_session_def ServeRPC_eof)
  qed
qed

theorem degenerate_counts_witness:
  "fst (server_session (peer_sends (client_out [1] 8 0 []))) = Some (Panic ''integer divide by zero'')
   \<and> fst (server_session (peer_sends (client_out [1] 8 (- 1) []))) = Some (Fatal ''Err ServeRPC'')"
  using degenerate_counts [of 0 8 "[1]"] degenerate_counts [of "- 1" 8 "[1]"] by simp

text \<open>
  The pipe proxy can be restarted: whether or not an earlier run left its socket behind,
  a start with good arguments and connections never fails to bind the path, ends as the
  session ends, and a session that ends well leaves the path free. Other paths are
  untouched.
\<close>

theorem pipeproxy_restarts:
  assumes "length args = 2" and "dial (args ! 1) = Inr srv"
    and "pipeproxy_main (None, None) dial (Inr cli) paths args = (stop, conns, paths')"
  shows "stop = fst (proxy_session cli srv)
    \<and> paths' - {PATH} = paths - {PATH} \<and> (PATH \<in> paths' \<longleftrightarrow> stop \<noteq> None)"
  using assms by (auto simp: pipeproxy_main_def Let_def split: prod.splits option.splits)

theorem pipeproxy_restarts_witness:
  "fst (pipeproxy_main (None, None) (\<lambda>a. Inr (peer_sends [])) (Inr (peer_sends [])) {PATH} [''pipeproxy'', ''srv''])
     = Some (Fatal ''Err GetNRPC'')"
proof -
  have "fst (proxy_session (peer_sends []) (peer_sends [])) = Some (Fatal ''Err GetNRPC'')"
    by (simp add: proxy_session_def GetNRPC_def ReadUint32_short)
  then show ?thesis
    using pipeproxy_restarts [of "[''pipeproxy'', ''srv'']" "\<lambda>a. Inr (peer_sends [])" "peer_sends []" "peer_sends []" "{PATH}"]
    by (metis One_nat_def length_Cons list.size(3) nat_1_add_1 plus_1_eq_Suc prod_cases3 fst_conv)
qed


end
