(* ===== verification/RpcTypes.thy ===== *)
theory RpcTypes
  imports Rpc "HOL-Library.Sublist"
begin

text \<open>
  What holds of every frame and RPC operation on every stream, whatever the peers send and
  whether or not it succeeds: connections only move forward, and buffers keep their length.
\<close>

section \<open>Connections move forward\<close>

text \<open>Bytes are taken off the front of what is received and added at the end of what is sent.\<close>

definition advances :: "conn \<Rightarrow> conn \<Rightarrow> bool" where
  "advances c c' \<longleftrightarrow> suffix (rx c') (rx c) \<and> prefix (tx c) (tx c') \<and> rx_end c' = rx_end c \<and> wfail c' = wfail c"

named_theorems advance_intros

lemma advances_refl [simp, advance_intros]: "advances c c"
  by (simp add: advances_def)






section \<open>Operations\<close>









section \<open>Properties\<close>



end
