(* ===== verification/GoHttp.thy ===== *)
theory GoHttp
  imports Prelude
begin

text \<open>
  What the HTTP handlers do to their \<open>http.ResponseWriter\<close>: the status line, once one has
  been sent, and the body. A body byte sends status 200 if none was sent before;
  \<open>http.Error\<close> sends its status, unless one was sent already, and a line of text.
\<close>

record response =
  code :: "nat option"
  body :: string

definition new_response :: response where
  "new_response = \<lparr>code = None, body = ''''\<rparr>"

definition write_body :: "string \<Rightarrow> response \<Rightarrow> response" where
  "write_body s w =
     (if s = [] then w
      else w\<lparr>code := Some (case code w of None \<Rightarrow> 200 | Some c \<Rightarrow> c), body := body w @ s\<rparr>)"

definition http_error :: "string \<Rightarrow> nat \<Rightarrow> response \<Rightarrow> response" where
  "http_error msg c w =
     w\<lparr>code := Some (case code w of None \<Rightarrow> c | Some c' \<Rightarrow> c'), body := body w @ msg @ [CHR 0x0A]\<rparr>"

end
