(* ===== verification/LB.thy ===== *)
theory LB
  imports GoHttp "HOL-Library.Multiset"
begin

text \<open>
  \<open>kubernetes/elasticity/cmd/lb/main.go\<close>: the HTTP load balancer in front of the spin
  servers. Its state is the list of backend pod IPs, the number of outstanding requests per
  backend address and the round-robin index; the mutex makes each operation one atomic
  step. Go visits a map in an unspecified order: operations that range over a map take the
  order of the visit as an argument, any list without repetitions that covers the keys.
  \<open>idx\<close> is a Go \<open>int\<close> and kept as a 64-bit word, since it only ever grows.
\<close>

section \<open>The code\<close>

type_synonym Tlb = string

definition LB_RR :: Tlb where "LB_RR = ''rr''"
definition LB_ClntSideQLen :: Tlb where "LB_ClntSideQLen = ''clntsideqlen''"
definition LB_Random :: Tlb where "LB_Random = ''random''"

definition parseLBType :: "string \<Rightarrow> go_stop + Tlb" where
  "parseLBType s =
     (if s = LB_RR then Inr LB_RR
      else if s = LB_Random then Inr LB_Random
      else Inl (Fatal ''Unknown LB type''))"

record LB =
  t :: Tlb
  podIPs :: "string list"
  outstandingReqs :: "string \<rightharpoonup> int"
  idx :: int64

definition newLB :: "Tlb \<Rightarrow> LB" where
  "newLB lbType = \<lparr>t = lbType, podIPs = [], outstandingReqs = Map.empty, idx = 0\<rparr>"

definition pod_addr :: "string \<Rightarrow> string" where
  "pod_addr ip = ip @ '':8080''"

text \<open>An order in which a \<open>range\<close> loop may visit a map.\<close>

definition covers :: "'a list \<Rightarrow> ('a \<rightharpoonup> 'b) \<Rightarrow> bool" where
  "covers order m \<longleftrightarrow> distinct order \<and> dom m \<subseteq> set order"

definition visit :: "'a list \<Rightarrow> ('a \<rightharpoonup> 'b) \<Rightarrow> 'a list" where
  "visit order m = filter (\<lambda>k. m k \<noteq> None) order"

text \<open>
  The first loop of \<open>updatePodIPs\<close>: \<open>i\<close> walks over \<open>podIPs\<close> while elements are cut out
  of it. After \<open>i--\<close> the log line reads \<open>lb.podIPs[i]\<close>, which is out of range when the
  element removed was the first. \<open>ips[ip]\<close> is false for an absent key.
\<close>

definition present :: "(string \<rightharpoonup> bool) \<Rightarrow> string \<Rightarrow> bool" where
  "present ips ip = (ips ip = Some True)"

function remove_stale ::
  "nat \<Rightarrow> string list \<Rightarrow> (string \<rightharpoonup> bool) \<Rightarrow> go_stop + string list \<times> (string \<rightharpoonup> bool)" where
  "remove_stale i pods ips =
     (if i < length pods then
        if \<not> present ips (pods ! i) then
          let pods' = take i pods @ drop (Suc i) pods in
          if i = 0 then Inl (Panic ''index out of range [-1]'')
          else remove_stale i pods' ips
        else remove_stale (Suc i) pods (ips(pods ! i := None))
      else Inr (pods, ips))"
  by pat_completeness auto
termination
  by (relation "measure (\<lambda>(i, pods, ips). length pods - i)") auto

declare remove_stale.simps [simp del]

text \<open>The second loop: append each new IP, with no outstanding requests.\<close>

fun add_pods :: "string list \<Rightarrow> LB \<Rightarrow> LB" where
  "add_pods [] lb = lb"
| "add_pods (ip # ips) lb =
     add_pods ips (lb\<lparr>podIPs := podIPs lb @ [ip],
                      outstandingReqs := (outstandingReqs lb)(pod_addr ip \<mapsto> 0)\<rparr>)"

definition updatePodIPs :: "string list \<Rightarrow> (string \<rightharpoonup> bool) \<Rightarrow> LB \<Rightarrow> go_stop + LB" where
  "updatePodIPs order ips lb =
     (case remove_stale 0 (podIPs lb) ips of
        Inl stop \<Rightarrow> Inl stop
      | Inr (pods, ips') \<Rightarrow> Inr (add_pods (visit order ips') (lb\<lparr>podIPs := pods\<rparr>)))"

text \<open>
  One turn of \<open>monitorPods\<close>: the endpoints object is a list of subsets of addresses, or the
  error of the API call.
\<close>

definition collect_ips :: "string list list \<Rightarrow> (string \<rightharpoonup> bool)" where
  "collect_ips subsets = fold (\<lambda>a ips. ips(a \<mapsto> True)) (concat subsets) Map.empty"

definition monitorPods :: "string list \<Rightarrow> string + string list list \<Rightarrow> LB \<Rightarrow> go_stop + LB" where
  "monitorPods order ep lb =
     (case ep of
        Inl err \<Rightarrow> Inl (Fatal ''Err get endpoints'')
      | Inr subsets \<Rightarrow> updatePodIPs order (collect_ips subsets) lb)"

definition getBackendPodAddrRR :: "LB \<Rightarrow> go_stop + string \<times> LB" where
  "getBackendPodAddrRR lb =
     (if podIPs lb = [] then Inl (Fatal ''No backend pod IPs available'')
      else let i = sint (idx lb) smod int (length (podIPs lb)) in
        if i < 0 then Inl (Panic ''index out of range'')
        else Inr (pod_addr (podIPs lb ! nat i), lb\<lparr>idx := idx lb + 1\<rparr>))"

text \<open>The loop over \<open>outstandingReqs\<close> with its two variables \<open>addr\<close> and \<open>minQLen\<close>.\<close>

fun min_scan :: "(string \<rightharpoonup> int) \<Rightarrow> string list \<Rightarrow> string \<times> int \<Rightarrow> string \<times> int" where
  "min_scan m [] acc = acc"
| "min_scan m (a # as) (addr, minQLen) =
     (case m a of
        None \<Rightarrow> min_scan m as (addr, minQLen)
      | Some qlen \<Rightarrow>
          min_scan m as (if qlen < minQLen \<or> minQLen = - 1 then (a, qlen) else (addr, minQLen)))"

text \<open>\<open>m[k] += d\<close> on a Go map: an absent key counts as zero.\<close>

definition map_add :: "(string \<rightharpoonup> int) \<Rightarrow> string \<Rightarrow> int \<Rightarrow> (string \<rightharpoonup> int)" where
  "map_add m k d = m(k \<mapsto> (case m k of None \<Rightarrow> 0 | Some q \<Rightarrow> q) + d)"

definition getBackendPodAddrClntSideQLen :: "string list \<Rightarrow> LB \<Rightarrow> string \<times> LB" where
  "getBackendPodAddrClntSideQLen order lb =
     (let addr = fst (min_scan (outstandingReqs lb) order ('''', - 1))
      in (addr, lb\<lparr>outstandingReqs := map_add (outstandingReqs lb) addr 1\<rparr>))"

definition getBackendPodAddr :: "string list \<Rightarrow> LB \<Rightarrow> go_stop + string \<times> LB" where
  "getBackendPodAddr order lb =
     (if t lb = LB_RR then getBackendPodAddrRR lb
      else if t lb = LB_ClntSideQLen then Inr (getBackendPodAddrClntSideQLen order lb)
      else Inl (Fatal ''Unimplemented LB''))"

definition putBackendPodAddr :: "string \<Rightarrow> LB \<Rightarrow> LB" where
  "putBackendPodAddr addr lb = lb\<lparr>outstandingReqs := map_add (outstandingReqs lb) addr (- 1)\<rparr>"

text \<open>
  The handler. \<open>get\<close> is the proxied GET, giving its error, or the body bytes that could be
  copied and the error that ended the copy, if any.
\<close>

definition lbHandler ::
  "(string \<Rightarrow> string + string \<times> string option) \<Rightarrow> string list \<Rightarrow> string \<Rightarrow> LB \<Rightarrow> go_stop + response \<times> LB" where
  "lbHandler get order rawQuery lb =
     (case getBackendPodAddr order lb of
        Inl stop \<Rightarrow> Inl stop
      | Inr (addr, lb1) \<Rightarrow>
          let proxyURL = ''http://'' @ addr @ ''/spin?'' @ rawQuery;
              w = (case get proxyURL of
                     Inl err \<Rightarrow> http_error (''Err proxied request: '' @ err) 400 new_response
                   | Inr (copied, cerr) \<Rightarrow>
                       let w1 = write_body copied new_response in
                       (case cerr of
                          None \<Rightarrow> w1
                        | Some err \<Rightarrow> http_error (''Err copy body proxied request: '' @ err) 400 w1))
          in Inr (w, putBackendPodAddr addr lb1))"

text \<open>\<open>main\<close> takes the type from the command line as it is; \<open>parseLBType\<close> is not called.\<close>

definition lb_main :: "string list \<Rightarrow> string option \<Rightarrow> go_stop + LB" where
  "lb_main args k8s_err =
     (if length args \<noteq> 2 then Inl (Fatal ''Usage'')
      else (case k8s_err of
              Some err \<Rightarrow> Inl (Fatal err)
            | None \<Rightarrow> Inr (newLB (args ! 1))))"

end
