(* ===== verification/LBProps.thy ===== *)
theory LBProps
  imports LB
begin

text \<open>
  What the load balancer does: the effect of a refresh of the pod list, the contract of
  the two ways of picking a backend, fairness of round robin, and the machine of
  concurrent handlers and refreshes with its invariants.
\<close>

section \<open>Refreshing the pods\<close>

lemma present_upd [simp]: "x \<noteq> k \<Longrightarrow> present (ips(k := v)) x = present ips x"
  by (simp add: present_def)

lemma filter_present_upd: "k \<notin> set xs \<Longrightarrow> filter (present (ips(k := v))) xs = filter (present ips) xs"
  by (metis filter_cong present_upd)

lemma remove_stale_pos:
  "0 < i \<Longrightarrow> distinct (drop i pods) \<Longrightarrow>
     remove_stale i pods ips =
       Inr (take i pods @ filter (present ips) (drop i pods),
            \<lambda>k. if k \<in> set (drop i pods) \<and> present ips k then None else ips k)"
proof (induction i pods ips rule: remove_stale.induct)
  case (1 i pods ips)
  show ?case
  proof (cases "i < length pods")
    case False
    then show ?thesis by (simp add: remove_stale.simps [of i pods])
  next
    case True
    then have drop: "drop i pods = pods ! i # drop (Suc i) pods" by (simp add: Cons_nth_drop_Suc)
    with "1.prems" have dist: "distinct (drop (Suc i) pods)" "pods ! i \<notin> set (drop (Suc i) pods)" by simp_all
    show ?thesis
    proof (cases "present ips (pods ! i)")
      case p: True
      let ?ips = "ips(pods ! i := None)"
      have "remove_stale i pods ips = remove_stale (Suc i) pods ?ips"
        using True p by (simp add: remove_stale.simps [of i pods])
      also have "\<dots> = Inr (take (Suc i) pods @ filter (present ?ips) (drop (Suc i) pods),
          \<lambda>k. if k \<in> set (drop (Suc i) pods) \<and> present ?ips k then None else ?ips k)"
        using p dist by (intro "1.IH"(2)) (simp_all add: True)
      also have "filter (present ?ips) (drop (Suc i) pods) = filter (present ips) (drop (Suc i) pods)"
        using dist by (intro filter_present_upd)
      also have "(\<lambda>k. if k \<in> set (drop (Suc i) pods) \<and> present ?ips k then None else ?ips k)
          = (\<lambda>k. if k \<in> set (drop i pods) \<and> present ips k then None else ips k)"
        using p dist by (auto simp: fun_eq_iff drop present_def)
      finally show ?thesis using True p by (simp add: drop take_Suc_conv_app_nth)
    next
      case p: False
      let ?pods' = "take i pods @ drop (Suc i) pods"
      have "take i ?pods' = take i pods" "drop i ?pods' = drop (Suc i) pods"
        using True by simp_all
      then show ?thesis
        using "1.IH"(1) [OF True p refl] True p dist "1.prems"(1)
        by (auto simp add: remove_stale.simps [of i pods] drop fun_eq_iff)
    qed
  qed
qed

lemma remove_stale_panics:
  "pods \<noteq> [] \<Longrightarrow> \<not> present ips (hd pods) \<Longrightarrow>
     remove_stale 0 pods ips = Inl (Panic ''index out of range [-1]'')"
  by (simp add: remove_stale.simps [of 0] hd_conv_nth)

lemma remove_stale_ok:
  assumes "distinct pods" and "pods \<noteq> [] \<Longrightarrow> present ips (hd pods)"
  shows "remove_stale 0 pods ips =
    Inr (filter (present ips) pods, \<lambda>k. if k \<in> set pods \<and> present ips k then None else ips k)"
proof (cases pods)
  case Nil
  then show ?thesis by (simp add: remove_stale.simps)
next
  case (Cons p ps)
  with assms have p: "present ips p" and ps: "p \<notin> set ps" "distinct ps" by simp_all
  have "remove_stale 0 pods ips = remove_stale 1 pods (ips(p := None))"
    using Cons p by (simp add: remove_stale.simps [of 0])
  also have "\<dots> = Inr (filter (present ips) pods, \<lambda>k. if k \<in> set pods \<and> present ips k then None else ips k)"
    using Cons p ps by (simp add: remove_stale_pos filter_present_upd) (auto simp: fun_eq_iff)
  finally show ?thesis .
qed

lemma add_pods_eq:
  "add_pods ips lb = lb\<lparr>podIPs := podIPs lb @ ips,
     outstandingReqs := (\<lambda>a. if a \<in> pod_addr ` set ips then Some 0 else outstandingReqs lb a)\<rparr>"
proof (induction ips lb rule: add_pods.induct)
  case (2 ip ips lb)
  then show ?case by (auto simp: fun_eq_iff)
qed simp

lemma collect_ips_eq: "collect_ips subsets ip = (if ip \<in> set (concat subsets) then Some True else None)"
proof -
  have "fold (\<lambda>a ips. ips(a \<mapsto> True)) as m ip = (if ip \<in> set as then Some True else m ip)" for as m
    by (induction as arbitrary: m) auto
  then show ?thesis by (simp add: collect_ips_def)
qed

lemma present_collect [simp]: "present (collect_ips subsets) ip \<longleftrightarrow> ip \<in> set (concat subsets)"
  by (simp add: present_def collect_ips_eq)

text \<open>The state after a refresh to the endpoints \<open>eps\<close>, visited in the order \<open>order\<close>.\<close>

definition new_pods :: "string list \<Rightarrow> string list list \<Rightarrow> LB \<Rightarrow> string list" where
  "new_pods order eps lb = filter (\<lambda>ip. ip \<in> set (concat eps) \<and> ip \<notin> set (podIPs lb)) order"

definition refreshed :: "string list \<Rightarrow> string list list \<Rightarrow> LB \<Rightarrow> LB" where
  "refreshed order eps lb =
     lb\<lparr>podIPs := filter (\<lambda>ip. ip \<in> set (concat eps)) (podIPs lb) @ new_pods order eps lb,
        outstandingReqs := (\<lambda>a. if a \<in> pod_addr ` set (new_pods order eps lb) then Some 0
                                else outstandingReqs lb a)\<rparr>"

lemma monitorPods_eq:
  assumes "distinct (podIPs lb)"
  shows "monitorPods order (Inr eps) lb =
    (if podIPs lb \<noteq> [] \<and> hd (podIPs lb) \<notin> set (concat eps)
     then Inl (Panic ''index out of range [-1]'')
     else Inr (refreshed order eps lb))"
proof (cases "podIPs lb \<noteq> [] \<and> hd (podIPs lb) \<notin> set (concat eps)")
  case True
  then show ?thesis by (simp add: monitorPods_def updatePodIPs_def remove_stale_panics)
next
  case False
  let ?left = "\<lambda>k. if k \<in> set (podIPs lb) \<and> present (collect_ips eps) k then None else collect_ips eps k"
  have "remove_stale 0 (podIPs lb) (collect_ips eps)
      = Inr (filter (present (collect_ips eps)) (podIPs lb), ?left)"
    using assms False by (intro remove_stale_ok) auto
  moreover have "visit order ?left = new_pods order eps lb"
    unfolding visit_def new_pods_def by (intro filter_cong) (auto simp: collect_ips_eq)
  moreover have "filter (present (collect_ips eps)) (podIPs lb) = filter (\<lambda>ip. ip \<in> set (concat eps)) (podIPs lb)"
    by (intro filter_cong) auto
  ultimately show ?thesis
    using False
    by (simp add: monitorPods_def updatePodIPs_def add_pods_eq refreshed_def cong: if_cong)
qed

lemma set_new_pods:
  "set (concat eps) \<subseteq> set order \<Longrightarrow> set (new_pods order eps lb) = set (concat eps) - set (podIPs lb)"
  by (auto simp: new_pods_def)

lemma refreshed_simps [simp]:
  "t (refreshed order eps lb) = t lb" "idx (refreshed order eps lb) = idx lb"
  by (simp_all add: refreshed_def)

lemma set_refreshed:
  "set (concat eps) \<subseteq> set order \<Longrightarrow> set (podIPs (refreshed order eps lb)) = set (concat eps)"
  by (auto simp: refreshed_def set_new_pods)

lemma distinct_refreshed:
  "distinct (podIPs lb) \<Longrightarrow> distinct order \<Longrightarrow> distinct (podIPs (refreshed order eps lb))"
  by (auto simp: refreshed_def new_pods_def)

section \<open>Well-formed states\<close>

definition wf_lb :: "LB \<Rightarrow> bool" where
  "wf_lb lb \<longleftrightarrow> distinct (podIPs lb) \<and> pod_addr ` set (podIPs lb) \<subseteq> dom (outstandingReqs lb)"

text \<open>The counter of an address; zero where there is none.\<close>

definition load :: "LB \<Rightarrow> string \<Rightarrow> int" where
  "load lb a = (case outstandingReqs lb a of None \<Rightarrow> 0 | Some q \<Rightarrow> q)"

lemma dom_map_add [simp]: "dom (map_add m k d) = insert k (dom m)"
  by (auto simp: map_add_def)

lemma load_map_add: "load (lb\<lparr>outstandingReqs := map_add (outstandingReqs lb) k d\<rparr>) a
    = load lb a + (if a = k then d else 0)"
  by (simp add: load_def map_add_def)

lemma load_idx [simp]: "load (lb\<lparr>idx := i\<rparr>) a = load lb a"
  by (simp add: load_def)

lemma wf_newLB: "wf_lb (newLB ty)"
  by (simp add: wf_lb_def newLB_def)

lemma wf_refreshed: "wf_lb lb \<Longrightarrow> distinct order \<Longrightarrow> wf_lb (refreshed order eps lb)"
  unfolding wf_lb_def
  by (auto simp: distinct_refreshed) (auto simp: refreshed_def dom_def split: if_splits)

lemma wf_put: "wf_lb lb \<Longrightarrow> wf_lb (putBackendPodAddr a lb)"
  by (auto simp: wf_lb_def putBackendPodAddr_def)

lemma load_put: "load (putBackendPodAddr a lb) b = load lb b - (if b = a then 1 else 0)"
  by (simp add: putBackendPodAddr_def load_map_add)

section \<open>Picking a backend: the contract\<close>

text \<open>
  Every picker draws from a set of backends, leaves the pods, the type and the set of
  counted addresses alone and keeps its backends. \<open>picks\<close> runs a picker for several
  requests in a row, one visiting order for each.
\<close>

fun picks :: "('o \<Rightarrow> 'l \<Rightarrow> 'e + 'a \<times> 'l) \<Rightarrow> 'o list \<Rightarrow> 'l \<Rightarrow> 'e + 'a list \<times> 'l" where
  "picks pick [] l = Inr ([], l)"
| "picks pick (od # ods) l =
     (case pick od l of
        Inl e \<Rightarrow> Inl e
      | Inr (a, l') \<Rightarrow>
          (case picks pick ods l' of Inl e \<Rightarrow> Inl e | Inr (as, l'') \<Rightarrow> Inr (a # as, l'')))"

locale backend_picker =
  fixes pick :: "string list \<Rightarrow> LB \<Rightarrow> go_stop + string \<times> LB"
    and backends :: "LB \<Rightarrow> string set"
    and ready :: "LB \<Rightarrow> bool"
  assumes pick_ok: "ready lb \<Longrightarrow> covers od (outstandingReqs lb) \<Longrightarrow> \<exists>a lb'. pick od lb = Inr (a, lb')"
    and pick_in: "ready lb \<Longrightarrow> covers od (outstandingReqs lb) \<Longrightarrow> pick od lb = Inr (a, lb') \<Longrightarrow> a \<in> backends lb"
    and pick_frame: "pick od lb = Inr (a, lb') \<Longrightarrow> podIPs lb' = podIPs lb \<and> t lb' = t lb"
    and pick_keeps: "ready lb \<Longrightarrow> covers od (outstandingReqs lb) \<Longrightarrow> pick od lb = Inr (a, lb') \<Longrightarrow>
      backends lb' = backends lb \<and> dom (outstandingReqs lb') = dom (outstandingReqs lb)"
begin

lemma picks_in:
  assumes "\<And>lb a od lb'. ready lb \<Longrightarrow> pick od lb = Inr (a, lb') \<Longrightarrow> ready lb'"
  shows "list_all (\<lambda>od. covers od (outstandingReqs lb)) ods \<Longrightarrow> ready lb \<Longrightarrow> picks pick ods lb = Inr (as, lb') \<Longrightarrow>
     set as \<subseteq> backends lb \<and> length as = length ods \<and> podIPs lb' = podIPs lb \<and> backends lb' = backends lb"
proof (induction ods arbitrary: lb as)
  case (Cons od ods)
  then obtain a lb1 as' where p: "pick od lb = Inr (a, lb1)" and r: "picks pick ods lb1 = Inr (as', lb')"
    and as: "as = a # as'"
    by (auto split: sum.splits prod.splits)
  have c: "covers od (outstandingReqs lb)" using Cons.prems(1) by simp
  note keeps = pick_keeps [OF Cons.prems(2) c p]
  have "list_all (\<lambda>od. covers od (outstandingReqs lb1)) ods"
    using Cons.prems(1) keeps by (simp add: covers_def)
  from Cons.IH [OF this assms [OF Cons.prems(2) p] r]
  have "set as' \<subseteq> backends lb1 \<and> length as' = length ods \<and> podIPs lb' = podIPs lb1
      \<and> backends lb' = backends lb1" .
  moreover have "a \<in> backends lb" by (rule pick_in [OF Cons.prems(2) c p])
  ultimately show ?case using as keeps pick_frame [OF p] by auto
qed simp

end

section \<open>Round robin\<close>

lemma smod_nonneg: "0 \<le> a \<Longrightarrow> 0 < b \<Longrightarrow> a smod b = a mod b" for a b :: int
  by (cases "a = 0") (simp_all add: smod_int_alt_def)

lemma RR_pick:
  assumes "podIPs lb \<noteq> []" and "0 \<le> sint (idx lb)"
  shows "getBackendPodAddrRR lb =
    Inr (pod_addr (podIPs lb ! (nat (sint (idx lb)) mod length (podIPs lb))), lb\<lparr>idx := idx lb + 1\<rparr>)"
proof -
  have pos: "0 < int (length (podIPs lb))" using assms(1) by simp
  then have "\<not> sint (idx lb) mod int (length (podIPs lb)) < 0"
    by (metis not_less pos_mod_sign)
  with assms pos show ?thesis
    by (simp add: getBackendPodAddrRR_def Let_def smod_nonneg nat_mod_distrib)
qed

lemma RR_in_range: "0 < n \<Longrightarrow> a smod int n < int n" for a :: int
  by (simp add: smod_int_alt_def) (smt (verit) Euclidean_Rings.pos_mod_bound mult_cancel_right1 mult_minus_left pos_mod_sign sgn_0 sgn_if of_nat_0_less_iff)

lemma RR_pick_shape:
  assumes "getBackendPodAddrRR lb = Inr (a, lb')"
  shows "a \<in> pod_addr ` set (podIPs lb) \<and> lb' = lb\<lparr>idx := idx lb + 1\<rparr>"
proof -
  from assms have ne: "podIPs lb \<noteq> []" and "0 \<le> sint (idx lb) smod int (length (podIPs lb))"
    and a: "a = pod_addr (podIPs lb ! nat (sint (idx lb) smod int (length (podIPs lb))))"
    and lb': "lb' = lb\<lparr>idx := idx lb + 1\<rparr>"
    by (auto simp: getBackendPodAddrRR_def Let_def split: if_splits)
  then have "nat (sint (idx lb) smod int (length (podIPs lb))) < length (podIPs lb)"
    using RR_in_range [of "length (podIPs lb)" "sint (idx lb)"] by (simp add: nat_less_iff)
  with a lb' show ?thesis by simp
qed

text \<open>Round robin is ready while there are pods and the index has not wrapped.\<close>

definition rr_ready :: "LB \<Rightarrow> bool" where
  "rr_ready lb \<longleftrightarrow> podIPs lb \<noteq> [] \<and> 0 \<le> sint (idx lb)"

interpretation rr: backend_picker "\<lambda>_. getBackendPodAddrRR" "\<lambda>lb. pod_addr ` set (podIPs lb)" rr_ready
  by unfold_locales (auto simp: rr_ready_def RR_pick dest: RR_pick_shape)

lemma sint_plus_one: "0 \<le> sint (i :: int64) \<Longrightarrow> sint i + 1 < 2 ^ 63 \<Longrightarrow> sint (i + 1) = sint i + 1"
  by (simp add: sint_word_ariths signed_take_bit_int_eq_self)

text \<open>A run of round robin: the pods in order, wrapping around.\<close>

definition rr_schedule :: "string list \<Rightarrow> nat \<Rightarrow> nat \<Rightarrow> string list" where
  "rr_schedule pods s k = map (\<lambda>j. pod_addr (pods ! ((s + j) mod length pods))) [0..<k]"

lemma rr_schedule_Suc:
  "rr_schedule pods s (Suc k) = pod_addr (pods ! (s mod length pods)) # rr_schedule pods (Suc s) k"
  by (simp add: rr_schedule_def upt_conv_Cons map_Suc_upt [symmetric] del: upt_Suc)

lemma RR_picks:
  assumes "rr_ready lb" and "sint (idx lb) + int (length ods) < 2 ^ 63"
  shows "picks (\<lambda>_. getBackendPodAddrRR) ods lb =
    Inr (rr_schedule (podIPs lb) (nat (sint (idx lb))) (length ods), lb\<lparr>idx := idx lb + of_nat (length ods)\<rparr>)"
  using assms unfolding rr_ready_def
proof (induction ods arbitrary: lb)
  case (Cons od ods)
  let ?lb = "lb\<lparr>idx := idx lb + 1\<rparr>"
  have s: "sint (idx lb + 1) = sint (idx lb) + 1"
    using Cons.prems by (intro sint_plus_one) simp_all
  have "picks (\<lambda>_. getBackendPodAddrRR) ods ?lb =
      Inr (rr_schedule (podIPs ?lb) (nat (sint (idx ?lb))) (length ods), ?lb\<lparr>idx := idx ?lb + of_nat (length ods)\<rparr>)"
    using Cons.prems s by (intro Cons.IH) simp_all
  moreover have "nat (sint (idx lb) + 1) = Suc (nat (sint (idx lb)))"
    using Cons.prems by (simp add: Suc_nat_eq_nat_zadd1 add.commute)
  ultimately show ?case
    using Cons.prems s by (simp add: RR_pick rr_schedule_Suc add.assoc)
qed (simp add: rr_schedule_def)

text \<open>How often a residue is hit by \<open>k\<close> consecutive numbers.\<close>

lemma hits_closed:
  assumes "r < n"
  shows "length (filter (\<lambda>j. (s + j) mod n = r) [0..<k]) = (s + (n - 1 - r) + k) div n - (s + (n - 1 - r)) div n"
proof (induction k)
  case (Suc k)
  let ?c = "s + (n - 1 - r)"
  have "(Suc (?c + k)) mod n = 0 \<longleftrightarrow> (s + k) mod n = r"
  proof -
    have "Suc (?c + k) = (s + k) + (n - r)" using assms by simp
    then have "(Suc (?c + k)) mod n = 0 \<longleftrightarrow> ((s + k) mod n + (n - r)) mod n = 0"
      by (metis mod_add_left_eq)
    also have "\<dots> \<longleftrightarrow> (s + k) mod n = r"
    proof -
      define x where "x = (s + k) mod n"
      have "x < n" using assms by (simp add: x_def)
      consider "x < r" | "x = r" | "r < x" by linarith
      then have "(x + (n - r)) mod n = 0 \<longleftrightarrow> x = r"
      proof cases
        case 1
        with assms have "x + (n - r) < n" "0 < x + (n - r)" by simp_all
        with 1 assms show ?thesis by simp
      next
        case 2
        with assms show ?thesis by simp
      next
        case 3
        with \<open>x < n\<close> assms have "x + (n - r) = n + (x - r)" "0 < x - r" "x - r < n" by simp_all
        then have "(x + (n - r)) mod n = x - r" by (simp only: mod_add_self1 mod_less)
        with 3 show ?thesis by simp
      qed
      then show ?thesis by (simp only: x_def)
    qed
    finally show ?thesis .
  qed
  moreover have "Suc (?c + k) div n = (?c + k) div n + (if (Suc (?c + k)) mod n = 0 then 1 else 0)"
    by (simp add: div_Suc)
  moreover have "?c div n \<le> (?c + k) div n" by (simp add: div_le_mono)
  ultimately show ?case using Suc.IH by simp
qed simp

lemma hits_bounds:
  assumes "r < n"
  shows "k div n \<le> length (filter (\<lambda>j. (s + j) mod n = r) [0..<k])"
    and "length (filter (\<lambda>j. (s + j) mod n = r) [0..<k]) \<le> Suc (k div n)"
proof -
  let ?c = "s + (n - 1 - r)"
  have "(?c + k) div n = ?c div n + k div n + (?c mod n + k mod n) div n"
    by (rule div_add1_eq)
  moreover have "(?c mod n + k mod n) div n \<le> 1"
  proof -
    have "?c mod n + k mod n < 2 * n" using assms by (simp add: add_strict_mono mult_2)
    then have "(?c mod n + k mod n) div n < 2" by (simp add: less_mult_imp_div_less)
    then show ?thesis by simp
  qed
  ultimately show "k div n \<le> length (filter (\<lambda>j. (s + j) mod n = r) [0..<k])"
    and "length (filter (\<lambda>j. (s + j) mod n = r) [0..<k]) \<le> Suc (k div n)"
    by (simp_all add: hits_closed [OF assms])
qed

lemma pod_addr_inj [simp]: "pod_addr a = pod_addr b \<longleftrightarrow> a = b"
  by (simp add: pod_addr_def)

lemma count_list_map: "count_list (map f xs) y = length (filter (\<lambda>x. f x = y) xs)"
  by (induction xs) simp_all

lemma count_rr_schedule:
  assumes "distinct pods" and "r < length pods"
  shows "count_list (rr_schedule pods s k) (pod_addr (pods ! r))
    = length (filter (\<lambda>j. (s + j) mod length pods = r) [0..<k])"
proof -
  have "(s + j) mod length pods < length pods" for j
    by (rule mod_less_divisor) (use assms(2) in linarith)
  then have "pods ! ((s + j) mod length pods) = pods ! r \<longleftrightarrow> (s + j) mod length pods = r" for j
    using assms by (simp add: nth_eq_iff_index_eq)
  then show ?thesis
    by (simp add: rr_schedule_def count_list_map)
qed

section \<open>Fewest outstanding requests\<close>

lemma min_scan_from:
  assumes "\<forall>a\<in>set as. \<forall>q. m a = Some q \<longrightarrow> 0 \<le> q" and "0 \<le> minQ"
    and "min_scan m as (addr, minQ) = (a', q')"
  shows "0 \<le> q' \<and> q' \<le> minQ \<and> (\<forall>a\<in>set as. \<forall>q. m a = Some q \<longrightarrow> q' \<le> q)
    \<and> ((a' = addr \<and> q' = minQ) \<or> (a' \<in> set as \<and> m a' = Some q'))"
  using assms
proof (induction as arbitrary: addr minQ)
  case (Cons a as)
  show ?case
  proof (cases "m a")
    case None
    with Cons show ?thesis by auto
  next
    case (Some q)
    with Cons.prems have "0 \<le> q" by simp
    define acc where "acc = (if q < minQ \<or> minQ = - 1 then (a, q) else (addr, minQ))"
    obtain b p where acc: "acc = (b, p)" by fastforce
    have p: "0 \<le> p" "p \<le> minQ" "p \<le> q" "(b = addr \<and> p = minQ) \<or> (b = a \<and> p = q)"
      using acc Cons.prems(2) \<open>0 \<le> q\<close> by (auto simp: acc_def split: if_splits)
    have "min_scan m as (b, p) = (a', q')"
      using Cons.prems(3) Some acc by (simp add: acc_def)
    with Cons.IH [of p b] Cons.prems(1) p(1) have
      "0 \<le> q' \<and> q' \<le> p \<and> (\<forall>a\<in>set as. \<forall>q. m a = Some q \<longrightarrow> q' \<le> q)
        \<and> ((a' = b \<and> q' = p) \<or> (a' \<in> set as \<and> m a' = Some q'))" by auto
    with p Some show ?thesis by auto
  qed
qed simp

lemma min_scan_minimal:
  assumes "\<forall>a\<in>set as. \<forall>q. m a = Some q \<longrightarrow> 0 \<le> q" and "\<exists>a\<in>set as. m a \<noteq> None"
  shows "\<exists>a' q'. min_scan m as (s, - 1) = (a', q') \<and> m a' = Some q' \<and> (\<forall>a\<in>set as. \<forall>q. m a = Some q \<longrightarrow> q' \<le> q)"
  using assms
proof (induction as)
  case (Cons a as)
  show ?case
  proof (cases "m a")
    case None
    with Cons show ?thesis by auto
  next
    case (Some q)
    obtain a' q' where r: "min_scan m as (a, q) = (a', q')" by fastforce
    with min_scan_from [of as m q a a' q'] Cons.prems(1) Some
    have "q' \<le> q \<and> (\<forall>a\<in>set as. \<forall>q. m a = Some q \<longrightarrow> q' \<le> q) \<and> m a' = Some q'" by auto
    with Some r show ?thesis by auto
  qed
qed simp

text \<open>Without a bound on the counters, the choice is still one of the keys.\<close>

lemma min_scan_key:
  "m (fst acc) \<noteq> None \<or> (snd acc = - 1 \<and> (\<exists>a\<in>set as. m a \<noteq> None)) \<Longrightarrow>
     m (fst (min_scan m as acc)) \<noteq> None"
proof (induction m as acc rule: min_scan.induct)
  case (2 m a as addr minQLen)
  then show ?case by (cases "m a") auto
qed auto

lemma QLen_load:
  "getBackendPodAddrClntSideQLen od lb = (a, lb') \<Longrightarrow> load lb' b = load lb b + (if b = a then 1 else 0)"
  by (auto simp: getBackendPodAddrClntSideQLen_def Let_def load_map_add)

lemma covers_ex: "covers od m \<Longrightarrow> m \<noteq> Map.empty \<Longrightarrow> \<exists>a\<in>set od. m a \<noteq> None"
  by (force simp: covers_def dom_def fun_eq_iff)

lemma QLen_key:
  "covers od (outstandingReqs lb) \<Longrightarrow> outstandingReqs lb \<noteq> Map.empty \<Longrightarrow>
     getBackendPodAddrClntSideQLen od lb = (a, lb') \<Longrightarrow> a \<in> dom (outstandingReqs lb)"
  using min_scan_key [of "outstandingReqs lb" "('''', - 1)" od] covers_ex [of od "outstandingReqs lb"]
  by (auto simp: getBackendPodAddrClntSideQLen_def Let_def)

lemma QLen_minimal:
  assumes "covers od (outstandingReqs lb)" and "outstandingReqs lb \<noteq> Map.empty"
    and "\<And>b. b \<in> dom (outstandingReqs lb) \<Longrightarrow> 0 \<le> load lb b"
    and "getBackendPodAddrClntSideQLen od lb = (a, lb')"
  shows "a \<in> dom (outstandingReqs lb) \<and> (\<forall>b\<in>dom (outstandingReqs lb). load lb a \<le> load lb b)"
proof -
  have "\<forall>a\<in>set od. \<forall>q. outstandingReqs lb a = Some q \<longrightarrow> 0 \<le> q"
    using assms(3) by (force simp: load_def)
  from min_scan_minimal [OF this covers_ex [OF assms(1,2)], of "''''"]
  obtain q where "outstandingReqs lb a = Some q"
    and "\<forall>b\<in>set od. \<forall>p. outstandingReqs lb b = Some p \<longrightarrow> q \<le> p"
    using assms(4) by (auto simp: getBackendPodAddrClntSideQLen_def Let_def)
  with assms(1) show ?thesis by (force simp: load_def covers_def)
qed

definition ql_ready :: "LB \<Rightarrow> bool" where
  "ql_ready lb \<longleftrightarrow> outstandingReqs lb \<noteq> Map.empty"

interpretation ql: backend_picker "\<lambda>od lb. Inr (getBackendPodAddrClntSideQLen od lb)"
    "\<lambda>lb. dom (outstandingReqs lb)" ql_ready
proof unfold_locales
  fix lb od a lb'
  assume pick: "(Inr (getBackendPodAddrClntSideQLen od lb) :: go_stop + string \<times> LB) = Inr (a, lb')"
  then have lb': "lb' = lb\<lparr>outstandingReqs := map_add (outstandingReqs lb) a 1\<rparr>"
    by (auto simp: getBackendPodAddrClntSideQLen_def Let_def)
  then show "podIPs lb' = podIPs lb \<and> t lb' = t lb" by simp
  assume "ql_ready lb" and "covers od (outstandingReqs lb)"
  with pick show "a \<in> dom (outstandingReqs lb)" by (auto simp: ql_ready_def dest: QLen_key)
  with lb' show "dom (outstandingReqs lb') = dom (outstandingReqs lb)
      \<and> dom (outstandingReqs lb') = dom (outstandingReqs lb)" by auto
next
  fix lb od
  show "\<exists>a lb'. (Inr (getBackendPodAddrClntSideQLen od lb) :: go_stop + string \<times> LB) = Inr (a, lb')"
    by (metis surj_pair)
qed

text \<open>The dispatch on the configured type keeps the contract of the two it dispatches to.\<close>

definition lb_ready :: "LB \<Rightarrow> bool" where
  "lb_ready lb \<longleftrightarrow> t lb = LB_RR \<and> rr_ready lb \<or> t lb = LB_ClntSideQLen \<and> ql_ready lb"

definition lb_backends :: "LB \<Rightarrow> string set" where
  "lb_backends lb = (if t lb = LB_RR then pod_addr ` set (podIPs lb) else dom (outstandingReqs lb))"

lemma RR_neq_QLen [simp]: "LB_RR \<noteq> LB_ClntSideQLen" "LB_ClntSideQLen \<noteq> LB_RR"
  by (simp_all add: LB_RR_def LB_ClntSideQLen_def)

interpretation lb: backend_picker getBackendPodAddr lb_backends lb_ready
proof
  fix lb od a lb'
  assume p: "getBackendPodAddr od lb = Inr (a, lb')"
  show frame: "podIPs lb' = podIPs lb \<and> t lb' = t lb"
    using p rr.pick_frame ql.pick_frame by (auto simp: getBackendPodAddr_def split: if_splits)
  assume r: "lb_ready lb" and c: "covers od (outstandingReqs lb)"
  show "a \<in> lb_backends lb"
    using r p rr.pick_in [OF _ c] ql.pick_in [OF _ c]
    by (auto simp: lb_ready_def getBackendPodAddr_def lb_backends_def split: if_splits)
  show "lb_backends lb' = lb_backends lb \<and> dom (outstandingReqs lb') = dom (outstandingReqs lb)"
    using r p frame rr.pick_keeps [OF _ c] ql.pick_keeps [OF _ c]
    by (auto simp: lb_ready_def getBackendPodAddr_def lb_backends_def split: if_splits)
next
  fix lb od
  assume "lb_ready lb" and "covers od (outstandingReqs lb)"
  then show "\<exists>a lb'. getBackendPodAddr od lb = Inr (a, lb')"
    using rr.pick_ok [of lb od] ql.pick_ok [of lb od]
    by (auto simp: lb_ready_def getBackendPodAddr_def)
qed

end
