(* ===== verification/LBMachine.thy ===== *)
theory LBMachine
  imports LBProps
begin

text \<open>
  The load balancer at work: any number of handlers that pick a backend and later report
  back, interleaved with refreshes of the pod list. Each critical section is one step.
\<close>

section \<open>Handlers and refreshes\<close>

record lbsys =
  bal :: LB
  inflight :: "string multiset"

definition lb_start :: "Tlb \<Rightarrow> lbsys \<Rightarrow> bool" where
  "lb_start ty s \<longleftrightarrow> s = \<lparr>bal = newLB ty, inflight = {#}\<rparr>"

text \<open>
  With \<open>readd = False\<close> a refresh never brings back a pod whose address is still counted,
  i.e. pod IPs are not reused.
\<close>

inductive lb_step :: "bool \<Rightarrow> lbsys \<Rightarrow> lbsys \<Rightarrow> bool" for readd :: bool where
  lb_pick: "covers od (outstandingReqs (bal s)) \<Longrightarrow> getBackendPodAddr od (bal s) = Inr (a, lb') \<Longrightarrow>
     lb_step readd s (s\<lparr>bal := lb', inflight := add_mset a (inflight s)\<rparr>)"
| lb_finish: "a \<in># inflight s \<Longrightarrow>
     lb_step readd s (s\<lparr>bal := putBackendPodAddr a (bal s), inflight := inflight s - {#a#}\<rparr>)"
| lb_refresh: "distinct od \<Longrightarrow> set (concat eps) \<subseteq> set od \<Longrightarrow> monitorPods od (Inr eps) (bal s) = Inr lb' \<Longrightarrow>
     readd \<or> (\<forall>ip\<in>set (new_pods od eps (bal s)). outstandingReqs (bal s) (pod_addr ip) = None) \<Longrightarrow>
     lb_step readd s (s\<lparr>bal := lb'\<rparr>)"

inductive_cases lb_stepE: "lb_step readd s s'"

lemma getBackendPodAddr_load:
  assumes "getBackendPodAddr od lb = Inr (a, lb')"
  shows "load lb' b = load lb b + (if t lb = LB_ClntSideQLen \<and> b = a then 1 else 0)"
proof (cases "t lb = LB_RR")
  case True
  with assms show ?thesis by (auto simp: getBackendPodAddr_def dest: RR_pick_shape)
next
  case False
  with assms show ?thesis by (auto simp: getBackendPodAddr_def QLen_load split: if_splits)
qed

lemma wf_pick:
  assumes "wf_lb lb" and "getBackendPodAddr od lb = Inr (a, lb')"
  shows "wf_lb lb'"
proof -
  have "podIPs lb' = podIPs lb" using lb.pick_frame [OF assms(2)] by simp
  moreover have "dom (outstandingReqs lb) \<subseteq> dom (outstandingReqs lb')"
    using assms(2) RR_pick_shape [of lb a lb']
    by (auto simp: getBackendPodAddr_def getBackendPodAddrClntSideQLen_def Let_def map_add_def split: if_splits)
  ultimately show ?thesis using assms(1) by (metis order_trans wf_lb_def)
qed

lemma monitorPods_Inr:
  "wf_lb lb \<Longrightarrow> monitorPods od (Inr eps) lb = Inr lb' \<Longrightarrow> lb' = refreshed od eps lb"
  by (auto simp: wf_lb_def monitorPods_eq split: if_splits)

lemma load_refreshed:
  "load (refreshed od eps lb) a = (if a \<in> pod_addr ` set (new_pods od eps lb) then 0 else load lb a)"
  by (simp add: refreshed_def load_def)

text \<open>The counters never exceed the requests in flight.\<close>

definition lb_inv :: "lbsys \<Rightarrow> bool" where
  "lb_inv s \<longleftrightarrow> wf_lb (bal s) \<and> (\<forall>a. load (bal s) a \<le> int (count (inflight s) a))"

interpretation lbm: machine_invariant "lb_start ty" "lb_step True" lb_inv
proof
  fix s assume "lb_start ty s"
  then show "lb_inv s" by (simp add: lb_start_def lb_inv_def wf_newLB) (simp add: load_def newLB_def)
next
  fix s s' assume inv: "lb_inv s" and step: "lb_step True s s'"
  from step show "lb_inv s'"
  proof cases
    case (lb_pick od a lb')
    with inv show ?thesis by (auto simp: lb_inv_def getBackendPodAddr_load intro: wf_pick add_increasing)
  next
    case (lb_finish a)
    moreover from inv have "load (bal s) a \<le> int (count (inflight s) a)"
      unfolding lb_inv_def by blast
    then have "load (bal s) a - 1 < int (count (inflight s) a)" by linarith
    ultimately show ?thesis using inv by (auto simp: lb_inv_def load_put wf_put of_nat_diff)
  next
    case (lb_refresh od eps lb')
    moreover from inv this have "lb' = refreshed od eps (bal s)"
      by (intro monitorPods_Inr) (simp_all add: lb_inv_def)
    ultimately show ?thesis using inv by (auto simp: lb_inv_def load_refreshed wf_refreshed)
  qed
qed

text \<open>With fresh pod IPs only, and the queue-length policy, the counters are exact.\<close>

definition lb_exact :: "lbsys \<Rightarrow> bool" where
  "lb_exact s \<longleftrightarrow> wf_lb (bal s) \<and> t (bal s) = LB_ClntSideQLen \<and> (\<forall>a. load (bal s) a = int (count (inflight s) a))"

interpretation lbx: machine_invariant "lb_start LB_ClntSideQLen" "lb_step False" lb_exact
proof
  fix s assume "lb_start LB_ClntSideQLen s"
  then show "lb_exact s" by (simp add: lb_start_def lb_exact_def wf_newLB) (simp add: load_def newLB_def)
next
  fix s s' assume inv: "lb_exact s" and step: "lb_step False s s'"
  from step show "lb_exact s'"
  proof cases
    case (lb_pick od a lb')
    with inv show ?thesis
      by (auto simp: lb_exact_def getBackendPodAddr_load intro: wf_pick dest: lb.pick_frame)
  next
    case (lb_finish a)
    with inv show ?thesis
      by (auto simp: lb_exact_def load_put wf_put of_nat_diff) (simp add: putBackendPodAddr_def)
  next
    case (lb_refresh od eps lb')
    moreover have "load (bal s) (pod_addr ip) = 0" if "ip \<in> set (new_pods od eps (bal s))" for ip
      using lb_refresh(5) that by (simp add: load_def)
    moreover from inv lb_refresh(4) have "lb' = refreshed od eps (bal s)"
      by (intro monitorPods_Inr) (simp_all add: lb_exact_def)
    ultimately show ?thesis using inv by (auto simp: lb_exact_def load_refreshed wf_refreshed)
  qed
qed

section \<open>Picking several times in a row\<close>

lemma picks_RR:
  "t lb = LB_RR \<Longrightarrow> picks getBackendPodAddr ods lb = picks (\<lambda>_. getBackendPodAddrRR) ods lb"
proof (induction ods arbitrary: lb)
  case (Cons od ods)
  have "t lb' = LB_RR" if "getBackendPodAddrRR lb = Inr (a, lb')" for a lb'
    using RR_pick_shape [OF that] Cons.prems by simp
  with Cons show ?case
    by (auto simp: getBackendPodAddr_def split: sum.splits)
qed simp

text \<open>Loads that differ by at most one stay so.\<close>

definition even_load :: "LB \<Rightarrow> bool" where
  "even_load lb \<longleftrightarrow> (\<forall>a\<in>dom (outstandingReqs lb). 0 \<le> load lb a
     \<and> (\<forall>b\<in>dom (outstandingReqs lb). load lb a \<le> load lb b + 1))"

lemma even_load_pick:
  assumes "t lb = LB_ClntSideQLen" and "ql_ready lb" and "covers od (outstandingReqs lb)" and "even_load lb"
    and "getBackendPodAddr od lb = Inr (a, lb')"
  shows "even_load lb'"
proof -
  have p: "getBackendPodAddrClntSideQLen od lb = (a, lb')"
    using assms(1,5) by (simp add: getBackendPodAddr_def)
  have dom: "dom (outstandingReqs lb') = dom (outstandingReqs lb)"
    using ql.pick_keeps [OF assms(2,3)] p by simp
  have "\<forall>b\<in>dom (outstandingReqs lb). load lb a \<le> load lb b"
    using QLen_minimal [OF assms(3) _ _ p] assms(2,4) by (auto simp: ql_ready_def even_load_def)
  then have "0 \<le> load lb' b \<and> load lb' b \<le> load lb' c + 1"
    if "b \<in> dom (outstandingReqs lb)" "c \<in> dom (outstandingReqs lb)" for b c
  proof -
    have "0 \<le> load lb b" "load lb b \<le> load lb c + 1" "load lb a \<le> load lb c"
      using assms(4) that \<open>\<forall>b\<in>dom (outstandingReqs lb). load lb a \<le> load lb b\<close>
      by (auto simp: even_load_def)
    then show ?thesis by (auto simp: QLen_load [OF p])
  qed
  then show ?thesis by (simp add: even_load_def dom)
qed

lemma picks_QLen:
  assumes "t lb = LB_ClntSideQLen" and "ql_ready lb" and "list_all (\<lambda>od. covers od (outstandingReqs lb)) ods"
    and "even_load lb"
  shows "\<exists>as lb'. picks getBackendPodAddr ods lb = Inr (as, lb') \<and> even_load lb'
    \<and> length as = length ods \<and> set as \<subseteq> dom (outstandingReqs lb)
    \<and> (\<forall>b. load lb' b = load lb b + int (count_list as b))"
  using assms
proof (induction ods arbitrary: lb)
  case (Cons od ods)
  have c: "covers od (outstandingReqs lb)" using Cons.prems(3) by simp
  have r: "lb_ready lb" using Cons.prems(1,2) by (simp add: lb_ready_def)
  from lb.pick_ok [OF r c] obtain a lb1 where p: "getBackendPodAddr od lb = Inr (a, lb1)" by blast
  note keeps = lb.pick_keeps [OF r c p] and frame = lb.pick_frame [OF p]
  have "\<exists>as lb'. picks getBackendPodAddr ods lb1 = Inr (as, lb') \<and> even_load lb'
    \<and> length as = length ods \<and> set as \<subseteq> dom (outstandingReqs lb1)
    \<and> (\<forall>b. load lb' b = load lb1 b + int (count_list as b))"
  proof (intro Cons.IH)
    show "even_load lb1" by (rule even_load_pick [OF Cons.prems(1,2) c Cons.prems(4) p])
    show "ql_ready lb1" using Cons.prems(2) keeps by (metis dom_eq_empty_conv ql_ready_def)
  qed (use Cons.prems keeps frame in \<open>simp_all add: covers_def\<close>)
  then obtain as lb' where ih: "picks getBackendPodAddr ods lb1 = Inr (as, lb')" "even_load lb'"
    "length as = length ods" "set as \<subseteq> dom (outstandingReqs lb1)"
    "\<forall>b. load lb' b = load lb1 b + int (count_list as b)" by blast
  moreover have "a \<in> dom (outstandingReqs lb)"
    using lb.pick_in [OF r c p] Cons.prems(1) by (simp add: lb_backends_def)
  ultimately show ?case
    using p keeps Cons.prems(1) getBackendPodAddr_load [OF p] by auto
qed simp

section \<open>Properties\<close>

text \<open>
  C8. A refresh of the pod list: if the first pod of the list is no longer an endpoint, the
  log statement after the removal indexes the list at -1 and the process panics. Otherwise
  the pods are afterwards exactly the endpoints, those that stayed in their old order and
  the new ones after them, without duplicates; the counters of new pods are zero and all
  others, including those of removed pods, are unchanged.
\<close>

theorem monitorPods_outcome:
  assumes "distinct (podIPs lb)" and "distinct od" and "set (concat eps) \<subseteq> set od"
  shows "(podIPs lb \<noteq> [] \<and> hd (podIPs lb) \<notin> set (concat eps) \<longrightarrow>
      monitorPods od (Inr eps) lb = Inl (Panic ''index out of range [-1]''))
    \<and> (podIPs lb = [] \<or> hd (podIPs lb) \<in> set (concat eps) \<longrightarrow>
      (\<exists>lb' new. monitorPods od (Inr eps) lb = Inr lb'
        \<and> podIPs lb' = filter (\<lambda>ip. ip \<in> set (concat eps)) (podIPs lb) @ new
        \<and> set new = set (concat eps) - set (podIPs lb) \<and> distinct (podIPs lb')
        \<and> set (podIPs lb') = set (concat eps)
        \<and> (\<forall>a. outstandingReqs lb' a = (if a \<in> pod_addr ` set new then Some 0 else outstandingReqs lb a))))"
proof (intro conjI impI)
  assume "podIPs lb = [] \<or> hd (podIPs lb) \<in> set (concat eps)"
  then have "monitorPods od (Inr eps) lb = Inr (refreshed od eps lb)"
    using assms(1) by (auto simp: monitorPods_eq)
  moreover have "podIPs (refreshed od eps lb)
      = filter (\<lambda>ip. ip \<in> set (concat eps)) (podIPs lb) @ new_pods od eps lb"
    by (simp add: refreshed_def)
  ultimately show "\<exists>lb' new. monitorPods od (Inr eps) lb = Inr lb'
        \<and> podIPs lb' = filter (\<lambda>ip. ip \<in> set (concat eps)) (podIPs lb) @ new
        \<and> set new = set (concat eps) - set (podIPs lb) \<and> distinct (podIPs lb')
        \<and> set (podIPs lb') = set (concat eps)
        \<and> (\<forall>a. outstandingReqs lb' a = (if a \<in> pod_addr ` set new then Some 0 else outstandingReqs lb a))"
    using set_new_pods [OF assms(3), of lb] distinct_refreshed [OF assms(1,2), of eps] set_refreshed [OF assms(3), of lb]
    by (intro exI [of _ "refreshed od eps lb"] exI [of _ "new_pods od eps lb"]) (simp add: refreshed_def)
qed (use assms(1) in \<open>simp add: monitorPods_eq\<close>)

definition lb_ab :: LB where
  "lb_ab = \<lparr>t = LB_ClntSideQLen, podIPs = [''A'', ''B''], outstandingReqs = [''A:8080'' \<mapsto> 0, ''B:8080'' \<mapsto> 0], idx = 0\<rparr>"

theorem monitorPods_outcome_witness:
  "monitorPods [''B''] (Inr [[''B'']]) lb_ab = Inl (Panic ''index out of range [-1]'')
   \<and> (\<exists>lb'. monitorPods [''A'', ''C''] (Inr [[''A''], [''C'']]) lb_ab = Inr lb' \<and> set (podIPs lb') = {''A'', ''C''})"
proof
  show "monitorPods [''B''] (Inr [[''B'']]) lb_ab = Inl (Panic ''index out of range [-1]'')"
    using monitorPods_outcome [of lb_ab "[''B'']" "[[''B'']]"] by (simp add: lb_ab_def)
  show "\<exists>lb'. monitorPods [''A'', ''C''] (Inr [[''A''], [''C'']]) lb_ab = Inr lb' \<and> set (podIPs lb') = {''A'', ''C''}"
    using monitorPods_outcome [of lb_ab "[''A'', ''C'']" "[[''A''], [''C'']]"] by (auto simp: lb_ab_def)
qed

text \<open>
  C23. Round robin is fair: as long as the index does not overflow 63 bits, \<open>n\<close> requests
  in a row all get a backend, and each of the \<open>m\<close> pods is picked \<open>n div m\<close> or
  \<open>n div m + 1\<close> times, wherever the index stood.
\<close>

theorem RR_fair:
  assumes "t lb = LB_RR" and "distinct (podIPs lb)" and "ip \<in> set (podIPs lb)"
    and "0 \<le> sint (idx lb)" and "sint (idx lb) + int (length ods) < 2 ^ 63"
  shows "\<exists>as lb'. picks getBackendPodAddr ods lb = Inr (as, lb')
    \<and> length ods div length (podIPs lb) \<le> count_list as (pod_addr ip)
    \<and> count_list as (pod_addr ip) \<le> length ods div length (podIPs lb) + 1"
proof -
  obtain r where r: "r < length (podIPs lb)" "ip = podIPs lb ! r"
    using assms(3) by (metis in_set_conv_nth)
  have "rr_ready lb" using assms(3,4) by (auto simp: rr_ready_def)
  from RR_picks [OF this assms(5)] show ?thesis
    using hits_bounds [OF r(1)] r(2) count_rr_schedule [OF assms(2) r(1)]
    by (simp add: picks_RR [OF assms(1)])
qed

theorem RR_fair_witness:
  "\<exists>as lb'. picks getBackendPodAddr (replicate 7 []) (lb_ab\<lparr>t := LB_RR\<rparr>) = Inr (as, lb')
     \<and> 3 \<le> count_list as (pod_addr ''B'') \<and> count_list as (pod_addr ''B'') \<le> 4"
proof -
  have "(7 :: nat) div Suc (Suc 0) = 3" by (simp flip: numeral_2_eq_2)
  then show ?thesis
    using RR_fair [of "lb_ab\<lparr>t := LB_RR\<rparr>" "''B''" "replicate 7 []"] by (simp add: lb_ab_def)
qed

text \<open>
  The queue-length policy spreads requests evenly: starting from equal counters, any
  number of requests picked in a row, whatever the order of each map traversal, leave the
  counters of any two backends at most one apart, and every backend's counter has grown by
  the number of times it was picked.
\<close>

theorem QLen_balances:
  assumes "t lb = LB_ClntSideQLen" and "outstandingReqs lb \<noteq> Map.empty"
    and "\<forall>a\<in>dom (outstandingReqs lb). outstandingReqs lb a = Some 0"
    and "list_all (\<lambda>od. covers od (outstandingReqs lb)) ods"
  shows "\<exists>as lb'. picks getBackendPodAddr ods lb = Inr (as, lb') \<and> length as = length ods
    \<and> (\<forall>a\<in>dom (outstandingReqs lb'). \<forall>b\<in>dom (outstandingReqs lb'). load lb' a \<le> load lb' b + 1)
    \<and> (\<forall>a\<in>dom (outstandingReqs lb). load lb' a = int (count_list as a))"
proof -
  have "even_load lb" "\<forall>a\<in>dom (outstandingReqs lb). load lb a = 0"
    using assms(3) by (auto simp: even_load_def load_def)
  with picks_QLen [OF assms(1) _ assms(4)] assms(2) show ?thesis
    by (fastforce simp: ql_ready_def even_load_def)
qed

theorem QLen_balances_witness:
  "\<exists>as lb'. picks getBackendPodAddr (replicate 5 [''A:8080'', ''B:8080'']) lb_ab = Inr (as, lb')
     \<and> load lb' ''A:8080'' = int (count_list as ''A:8080'')"
proof -
  have ne: "[''A:8080'' \<mapsto> (0 :: int), ''B:8080'' \<mapsto> 0] \<noteq> Map.empty" by (simp add: fun_eq_iff) (metis option.distinct(1))
  show ?thesis
    using QLen_balances [of lb_ab "replicate 5 [''A:8080'', ''B:8080'']"] ne
    by (auto simp: lb_ab_def covers_def list_all_iff)
qed

text \<open>
  With the queue-length policy and pod IPs that are not reused, in every reachable state
  of the concurrent system the counter of every address is the number of its requests in
  flight, and the next request goes to a known backend with the fewest requests in flight.
\<close>

theorem QLen_least_loaded:
  assumes "reach (lb_start LB_ClntSideQLen) (lb_step False) s"
    and "covers od (outstandingReqs (bal s))" and "outstandingReqs (bal s) \<noteq> Map.empty"
    and "getBackendPodAddr od (bal s) = Inr (a, lb')"
  shows "a \<in> dom (outstandingReqs (bal s))
    \<and> (\<forall>b. load (bal s) b = int (count (inflight s) b))
    \<and> (\<forall>b\<in>dom (outstandingReqs (bal s)). count (inflight s) a \<le> count (inflight s) b)"
proof -
  from lbx.reach_inv [OF assms(1)] have e: "t (bal s) = LB_ClntSideQLen"
    "\<And>b. load (bal s) b = int (count (inflight s) b)" by (simp_all add: lb_exact_def)
  then have "getBackendPodAddrClntSideQLen od (bal s) = (a, lb')"
    using assms(4) by (simp add: getBackendPodAddr_def)
  from QLen_minimal [OF assms(2,3) _ this] e show ?thesis by simp
qed

lemma refresh_step:
  assumes "wf_lb (bal s)" and "distinct od" and "set (concat eps) \<subseteq> set od"
    and "podIPs (bal s) = [] \<or> hd (podIPs (bal s)) \<in> set (concat eps)"
    and "readd \<or> (\<forall>ip\<in>set (new_pods od eps (bal s)). outstandingReqs (bal s) (pod_addr ip) = None)"
  shows "lb_step readd s (s\<lparr>bal := refreshed od eps (bal s)\<rparr>)"
proof (rule lb_refresh [OF assms(2,3) _ assms(5)])
  show "monitorPods od (Inr eps) (bal s) = Inr (refreshed od eps (bal s))"
    using assms(1,4) by (auto simp: monitorPods_eq wf_lb_def)
qed

definition lbsys_ba :: lbsys where
  "lbsys_ba = \<lparr>bal = \<lparr>t = LB_ClntSideQLen, podIPs = [''B'', ''A''],
     outstandingReqs = [''B:8080'' \<mapsto> 0, ''A:8080'' \<mapsto> 0], idx = 0\<rparr>, inflight = {#}\<rparr>"

lemma map_if_eq: "(\<lambda>a. if a = k then Some v else m a) = m(k \<mapsto> v)"
  by (simp add: fun_eq_iff)

lemma reach_lbsys_ba: "reach (lb_start LB_ClntSideQLen) (lb_step readd) lbsys_ba"
proof -
  let ?s = "\<lparr>bal = newLB LB_ClntSideQLen, inflight = {#}\<rparr>"
  have "lb_step readd ?s (?s\<lparr>bal := refreshed [''B'', ''A''] [[''A'', ''B'']] (bal ?s)\<rparr>)"
    by (rule refresh_step) (simp_all add: wf_newLB, simp_all add: newLB_def)
  moreover have "?s\<lparr>bal := refreshed [''B'', ''A''] [[''A'', ''B'']] (bal ?s)\<rparr> = lbsys_ba"
    by (simp add: refreshed_def new_pods_def newLB_def lbsys_ba_def pod_addr_def) (auto simp: fun_eq_iff)
  ultimately show ?thesis
    by (metis lb_start_def reach_start reach_step)
qed

theorem QLen_least_loaded_witness:
  "\<exists>(s :: lbsys) lb'. getBackendPodAddr [''A:8080'', ''B:8080''] (bal s) = Inr (''B:8080'', lb')
     \<and> load (bal s) ''A:8080'' = 1 \<and> count (inflight s) ''A:8080'' = 1
     \<and> count (inflight s) ''B:8080'' \<le> count (inflight s) ''A:8080''"
proof -
  let ?od = "[''A:8080'', ''B:8080'']"
  let ?lb = "bal lbsys_ba\<lparr>outstandingReqs := map_add (outstandingReqs (bal lbsys_ba)) ''A:8080'' 1\<rparr>"
  let ?s = "lbsys_ba\<lparr>bal := ?lb, inflight := add_mset ''A:8080'' (inflight lbsys_ba)\<rparr>"
  note ba = lbsys_ba_def getBackendPodAddr_def getBackendPodAddrClntSideQLen_def Let_def map_add_def
  have "getBackendPodAddr ?od (bal lbsys_ba) = Inr (''A:8080'', ?lb)"
    and c0: "covers ?od (outstandingReqs (bal lbsys_ba))"
    by (simp_all add: ba) (auto simp: covers_def dom_def)
  then have r: "reach (lb_start LB_ClntSideQLen) (lb_step False) ?s"
    by (intro reach_step [OF reach_lbsys_ba] lb_pick)
  have c: "covers ?od (outstandingReqs (bal ?s))" and n: "outstandingReqs (bal ?s) \<noteq> Map.empty"
    by (auto simp: covers_def ba dom_def fun_eq_iff)
  obtain lb' where p: "getBackendPodAddr ?od (bal ?s) = Inr (''B:8080'', lb')"
    by (simp add: ba)
  have l: "load (bal ?s) ''A:8080'' = 1 \<and> ''A:8080'' \<in> dom (outstandingReqs (bal ?s))"
    by (simp add: load_def ba)
  have q: "(\<forall>b. load (bal ?s) b = int (count (inflight ?s) b))
    \<and> (\<forall>b\<in>dom (outstandingReqs (bal ?s)). count (inflight ?s) ''B:8080'' \<le> count (inflight ?s) b)"
    using QLen_least_loaded [OF r c n p] by blast
  then have "int (count (inflight ?s) ''A:8080'') = 1" using l by (metis (no_types))
  then have "count (inflight ?s) ''A:8080'' = 1" by linarith
  with q l p show ?thesis by blast
qed

definition ba_state :: "string list \<Rightarrow> int \<Rightarrow> int \<Rightarrow> string multiset \<Rightarrow> lbsys" where
  "ba_state pods qa qb fl = \<lparr>bal = \<lparr>t = LB_ClntSideQLen, podIPs = pods,
     outstandingReqs = [''B:8080'' \<mapsto> qb, ''A:8080'' \<mapsto> qa], idx = 0\<rparr>, inflight = fl\<rparr>"

lemma wf_ba: "set pods \<subseteq> {''A'', ''B''} \<Longrightarrow> distinct pods \<Longrightarrow> wf_lb (bal (ba_state pods qa qb fl))"
  by (auto simp: wf_lb_def ba_state_def pod_addr_def)

lemma covers_ba: "covers [''A:8080'', ''B:8080''] (outstandingReqs (bal (ba_state pods qa qb fl)))"
  by (simp add: covers_def ba_state_def)

lemma ba_pick:
  "getBackendPodAddr [''A:8080'', ''B:8080''] (bal (ba_state pods qa qb fl)) =
     (if qb < qa \<or> qa = - 1 then Inr (''B:8080'', bal (ba_state pods qa (qb + 1) fl))
      else Inr (''A:8080'', bal (ba_state pods (qa + 1) qb fl)))"
  by (simp add: getBackendPodAddr_def getBackendPodAddrClntSideQLen_def Let_def ba_state_def map_add_def fun_upd_twist)

lemma ba_put:
  "putBackendPodAddr ''A:8080'' (bal (ba_state pods qa qb fl)) = bal (ba_state pods (qa - 1) qb fl)"
  by (simp add: putBackendPodAddr_def ba_state_def map_add_def)

lemma ba_refresh:
  "refreshed [''B''] [[''B'']] (bal (ba_state [''B'', ''A''] qa qb fl)) = bal (ba_state [''B''] qa qb fl)"
  "refreshed [''B'', ''A''] [[''B'', ''A'']] (bal (ba_state [''B''] qa qb fl)) = bal (ba_state [''B'', ''A''] 0 qb fl)"
  by (auto simp: refreshed_def new_pods_def ba_state_def pod_addr_def fun_eq_iff)

lemma ba_steps:
  "lb_step readd (ba_state [''B'', ''A''] 0 0 {#}) (ba_state [''B'', ''A''] 1 0 {#''A:8080''#})"
  "lb_step readd (ba_state [''B'', ''A''] 1 0 {#''A:8080''#}) (ba_state [''B'', ''A''] 1 1 {#''A:8080'', ''B:8080''#})"
  "lb_step readd (ba_state [''B'', ''A''] qa qb fl) (ba_state [''B''] qa qb fl)"
  "lb_step True (ba_state [''B''] qa qb fl) (ba_state [''B'', ''A''] 0 qb fl)"
  "lb_step readd (ba_state [''B'', ''A''] 0 1 {#''A:8080'', ''B:8080''#}) (ba_state [''B'', ''A''] (- 1) 1 {#''B:8080''#})"
proof -
  show "lb_step readd (ba_state [''B'', ''A''] 0 0 {#}) (ba_state [''B'', ''A''] 1 0 {#''A:8080''#})"
    using lb_pick [where readd = readd, OF covers_ba ba_pick [of "[''B'', ''A'']" 0 0 "{#}", simplified]]
    by (simp add: ba_state_def)
  show "lb_step readd (ba_state [''B'', ''A''] 1 0 {#''A:8080''#}) (ba_state [''B'', ''A''] 1 1 {#''A:8080'', ''B:8080''#})"
    using lb_pick [where readd = readd, OF covers_ba ba_pick [of "[''B'', ''A'']" 1 0 "{#''A:8080''#}", simplified]]
    by (simp add: ba_state_def add_mset_commute)
  show "lb_step readd (ba_state [''B'', ''A''] qa qb fl) (ba_state [''B''] qa qb fl)"
    using refresh_step [of "ba_state [''B'', ''A''] qa qb fl" "[''B'']" "[[''B'']]" readd]
      wf_ba [of "[''B'', ''A'']" qa qb fl]
    by (simp add: ba_refresh) (simp add: ba_state_def new_pods_def)
  show "lb_step True (ba_state [''B''] qa qb fl) (ba_state [''B'', ''A''] 0 qb fl)"
    using refresh_step [of "ba_state [''B''] qa qb fl" "[''B'', ''A'']" "[[''B'', ''A'']]" True]
      wf_ba [of "[''B'']" qa qb fl]
    by (simp add: ba_refresh) (simp add: ba_state_def)
  show "lb_step readd (ba_state [''B'', ''A''] 0 1 {#''A:8080'', ''B:8080''#}) (ba_state [''B'', ''A''] (- 1) 1 {#''B:8080''#})"
    using lb_finish [of "''A:8080''" "ba_state [''B'', ''A''] 0 1 {#''A:8080'', ''B:8080''#}" readd]
    by (simp add: ba_put) (simp add: ba_state_def)
qed

lemma lbsys_ba_eq: "lbsys_ba = ba_state [''B'', ''A''] 0 0 {#}"
  by (simp add: lbsys_ba_def ba_state_def)


text \<open>
  Removed pods stay in the counters: after A has left the endpoints, the
  queue-length policy still sends requests to A's address.
\<close>

theorem QLen_removed_pod:
  "\<exists>s lb'. reach (lb_start LB_ClntSideQLen) (lb_step False) s \<and> podIPs (bal s) = [''B'']
     \<and> getBackendPodAddr [''A:8080'', ''B:8080''] (bal s) = Inr (pod_addr ''A'', lb')"
proof -
  have "reach (lb_start LB_ClntSideQLen) (lb_step False) (ba_state [''B''] 0 0 {#})"
    using reach_lbsys_ba [of False] unfolding lbsys_ba_eq by (meson ba_steps(3) reach_step)
  moreover have "podIPs (bal (ba_state [''B''] 0 0 {#})) = [''B'']" by (simp add: ba_state_def)
  ultimately show ?thesis
    using ba_pick [of "[''B'']" 0 0 "{#}"] by (auto simp: pod_addr_def)
qed

text \<open>
  The counters never exceed the number of requests in flight, and pods are listed
  without duplicates and always have a counter, in every reachable state, for every policy
  and even when pod IPs are reused.
\<close>

theorem counters_bounded:
  assumes "reach (lb_start ty) (lb_step True) s"
  shows "distinct (podIPs (bal s)) \<and> pod_addr ` set (podIPs (bal s)) \<subseteq> dom (outstandingReqs (bal s))
    \<and> load (bal s) a \<le> int (count (inflight s) a)"
  using lbm.reach_inv [OF assms] by (simp add: lb_inv_def wf_lb_def)

theorem counters_bounded_witness:
  "load (bal lbsys_ba) ''A:8080'' \<le> int (count (inflight lbsys_ba) ''A:8080'')"
  using counters_bounded [OF reach_lbsys_ba] by blast

text \<open>
  A request through the load balancer: with the queue-length policy it is sent to a
  known backend and leaves every counter as it was; with round robin, where the pick counts
  nothing, the backend's counter drops by one for good. The client gets the backend's body
  when the copy succeeds, and status 400 when the backend cannot be reached.
\<close>

theorem lbHandler_effect:
  assumes "lb_ready lb" and "covers od (outstandingReqs lb)"
    and "lbHandler get od q lb = Inr (w, lb')"
  shows "\<exists>a\<in>lb_backends lb.
      (\<forall>b. load lb' b = load lb b - (if t lb = LB_RR \<and> b = a then 1 else 0))
    \<and> (case get (''http://'' @ a @ ''/spin?'' @ q) of
         Inl err \<Rightarrow> code w = Some 400
       | Inr (copied, None) \<Rightarrow> body w = copied \<and> code w = (if copied = [] then None else Some 200)
       | Inr (copied, Some err) \<Rightarrow> code w = Some (if copied = [] then 400 else 200))"
proof -
  from lb.pick_ok [OF assms(1,2)] obtain a lb1 where p: "getBackendPodAddr od lb = Inr (a, lb1)" by blast
  have a: "a \<in> lb_backends lb" by (rule lb.pick_in [OF assms(1,2) p])
  have "t lb = LB_RR \<or> t lb = LB_ClntSideQLen" using assms(1) by (auto simp: lb_ready_def)
  moreover have "lb' = putBackendPodAddr a lb1"
    using assms(3) p by (auto simp: lbHandler_def Let_def)
  ultimately have l: "load lb' b = load lb b - (if t lb = LB_RR \<and> b = a then 1 else 0)" for b
    by (auto simp: load_put getBackendPodAddr_load [OF p])
  show ?thesis
    using assms(3) p
    by (intro bexI [OF _ a])
      (auto simp: l lbHandler_def Let_def http_error_def write_body_def new_response_def split: sum.splits option.splits)
qed

theorem lbHandler_effect_witness:
  "\<exists>w lb'. lbHandler (\<lambda>u. Inr (''ok'', None)) [''A:8080'', ''B:8080''] ''dur=1s'' lb_ab = Inr (w, lb')
     \<and> body w = ''ok'' \<and> code w = Some 200 \<and> load lb' ''A:8080'' = 0"
proof -
  have ready: "lb_ready lb_ab" and c: "covers [''A:8080'', ''B:8080''] (outstandingReqs lb_ab)"
    by (auto simp: lb_ready_def ql_ready_def lb_ab_def covers_def fun_eq_iff intro: exI [of _ "''A:8080''"])
  obtain w lb' where "lbHandler (\<lambda>u. Inr (''ok'', None)) [''A:8080'', ''B:8080''] ''dur=1s'' lb_ab = Inr (w, lb')"
    by (simp add: lbHandler_def getBackendPodAddr_def getBackendPodAddrClntSideQLen_def lb_ab_def Let_def)
  with lbHandler_effect [OF ready c this] show ?thesis
    by (auto simp: lb_ab_def load_def)
qed

text \<open>
  Policies: \<open>parseLBType\<close> accepts "rr" and "random" but not "clntsideqlen"; \<open>main\<close> does
  not call it and starts with any name; and the first request to a load balancer started
  with a name other than "rr" and "clntsideqlen", "random" included, ends the process.
\<close>

theorem lb_types:
  "(parseLBType s = Inr ty \<longleftrightarrow> s = ty \<and> (s = LB_RR \<or> s = LB_Random))
   \<and> lb_main [prog, s] None = Inr (newLB s)
   \<and> (lbHandler get od q (lb\<lparr>t := s\<rparr>) = Inl (Fatal ''Unimplemented LB'')
       \<longleftrightarrow> s \<noteq> LB_RR \<and> s \<noteq> LB_ClntSideQLen)"
proof -
  have "getBackendPodAddrRR lb' \<noteq> Inl (Fatal ''Unimplemented LB'')" for lb'
    by (simp add: getBackendPodAddrRR_def Let_def)
  then show ?thesis
    by (auto simp: parseLBType_def lb_main_def lbHandler_def getBackendPodAddr_def Let_def
        split: sum.splits prod.splits)
qed

end
