(* ===== verification/LBPick.thy ===== *)
theory LBPick
  imports LBProps
begin

text \<open>
  The queue-length scan of \<open>getBackendPodAddrClntSideQLen\<close> against a reference: on counters
  that are not negative it picks the first shortest queue in the order of the map; a counter
  of -1, which the loop takes for its own start value, makes it forget all before it.
\<close>

section \<open>The reference\<close>

text \<open>The first element with the least value is also found from the left.\<close>

lemma arg_min_list_left:
  "arg_min_list f (x # y # zs) = arg_min_list f ((if f y < f x then y else x) # zs)"
  by (cases zs) (auto simp: Let_def)

definition counters :: "(string \<rightharpoonup> int) \<Rightarrow> string list \<Rightarrow> string list" where
  "counters m order = filter (\<lambda>a. m a \<noteq> None) order"

definition counter :: "(string \<rightharpoonup> int) \<Rightarrow> string \<Rightarrow> int" where
  "counter m a = (case m a of None \<Rightarrow> 0 | Some q \<Rightarrow> q)"

text \<open>The keys after the last one whose counter is -1.\<close>

definition since_minus_one :: "(string \<rightharpoonup> int) \<Rightarrow> string list \<Rightarrow> string list" where
  "since_minus_one m ks = rev (takeWhile (\<lambda>a. counter m a \<noteq> - 1) (rev ks))"

definition reference_pick :: "(string \<rightharpoonup> int) \<Rightarrow> string list \<Rightarrow> string" where
  "reference_pick m order =
     (let ks = counters m order; ys = since_minus_one m ks
      in if ks = [] then '''' else if ys = [] then last ks else arg_min_list (counter m) ys)"

section \<open>The scan\<close>

lemma min_scan_counters: "min_scan m order acc = min_scan m (counters m order) acc"
  by (induction m order acc rule: min_scan.induct) (simp_all add: counters_def split: option.splits)

lemma min_scan_append: "min_scan m (xs @ ys) acc = min_scan m ys (min_scan m xs acc)"
  by (induction m xs acc rule: min_scan.induct) (simp_all split: option.splits)

lemma min_scan_first:
  assumes "\<forall>a\<in>set (x # ks). m a \<noteq> None \<and> 0 \<le> counter m a"
  shows "fst (min_scan m ks (x, counter m x)) = arg_min_list (counter m) (x # ks)"
  using assms
proof (induction ks arbitrary: x)
  case (Cons y ks)
  then obtain q where "m y = Some q" by auto
  moreover have "counter m x \<noteq> - 1" using Cons.prems by auto
  ultimately have "min_scan m (y # ks) (x, counter m x)
      = (let z = if counter m y < counter m x then y else x in min_scan m ks (z, counter m z))"
    by (simp add: counter_def Let_def)
  with Cons show ?case by (simp add: arg_min_list_left Let_def del: arg_min_list.simps)
qed simp

lemma min_scan_fresh:
  assumes "\<forall>a\<in>set ys. m a \<noteq> None \<and> 0 \<le> counter m a"
  shows "fst (min_scan m ys (x, - 1)) = (if ys = [] then x else arg_min_list (counter m) ys)"
proof (cases ys)
  case (Cons y ks)
  with assms obtain q where "m y = Some q" by auto
  then have "min_scan m ys (x, - 1) = min_scan m ks (y, counter m y)" using Cons by (simp add: counter_def)
  with Cons assms min_scan_first [of y ks m] show ?thesis by simp
qed simp

text \<open>A key whose counter is -1 is always taken, since nothing is smaller.\<close>

lemma min_scan_minus_one:
  assumes "\<forall>a\<in>set (xs @ [k]). m a \<noteq> None \<and> - 1 \<le> counter m a" and "counter m k = - 1" and "- 1 \<le> q"
  shows "min_scan m (xs @ [k]) (x, q) = (k, - 1)"
  using assms(1,3)
proof (induction xs arbitrary: x q)
  case Nil
  with assms(2) show ?case by (auto simp: counter_def)
next
  case (Cons y xs)
  then obtain v where "m y = Some v" "- 1 \<le> v" by (auto simp: counter_def)
  with Cons show ?case by simp
qed

lemma since_minus_one_split:
  obtains "since_minus_one m ks = ks" "\<forall>a\<in>set ks. counter m a \<noteq> - 1"
  | xs k where "ks = xs @ [k] @ since_minus_one m ks" "counter m k = - 1"
      "\<forall>a\<in>set (since_minus_one m ks). counter m a \<noteq> - 1"
proof (cases "dropWhile (\<lambda>a. counter m a \<noteq> - 1) (rev ks)")
  case Nil
  then have "\<forall>a\<in>set ks. counter m a \<noteq> - 1" by (simp add: dropWhile_eq_Nil_conv)
  moreover from this have "since_minus_one m ks = ks" by (simp add: since_minus_one_def takeWhile_eq_all_conv [THEN iffD2])
  ultimately show ?thesis by (intro that(1))
next
  case (Cons k zs)
  have "rev ks = takeWhile (\<lambda>a. counter m a \<noteq> - 1) (rev ks) @ k # zs"
    using takeWhile_dropWhile_id [of "\<lambda>a. counter m a \<noteq> - 1" "rev ks"] Cons by simp
  then have "ks = rev zs @ [k] @ since_minus_one m ks"
    unfolding since_minus_one_def by (metis append_Cons append_Nil append_assoc rev.simps(2) rev_append rev_rev_ident)
  moreover have "counter m k = - 1" using hd_dropWhile [of "\<lambda>a. counter m a \<noteq> - 1" "rev ks"] Cons by simp
  moreover have "\<forall>a\<in>set (since_minus_one m ks). counter m a \<noteq> - 1"
    by (auto simp: since_minus_one_def dest: set_takeWhileD)
  ultimately show ?thesis by (intro that(2))
qed

section \<open>Properties\<close>

text \<open>
  C19. With counters that are -1 or more, the queue-length policy picks what the reference
  says. When no counter is -1 this is the first address with the shortest queue, in the order
  of the map. When one is -1, it is the first shortest after the last such address, or that
  address when it is the last: addresses before it are passed over, however idle.
\<close>

theorem QLen_pick_is_reference:
  assumes "\<forall>a\<in>set order. \<forall>q. outstandingReqs lb a = Some q \<longrightarrow> - 1 \<le> q"
  shows "fst (getBackendPodAddrClntSideQLen order lb) = reference_pick (outstandingReqs lb) order
    \<and> ((\<forall>a\<in>set order. outstandingReqs lb a \<noteq> Some (- 1)) \<and> counters (outstandingReqs lb) order \<noteq> [] \<longrightarrow>
        fst (getBackendPodAddrClntSideQLen order lb)
          = arg_min_list (counter (outstandingReqs lb)) (counters (outstandingReqs lb) order))"
proof -
  let ?m = "outstandingReqs lb"
  define ks where "ks = counters ?m order"
  define ys where "ys = since_minus_one ?m ks"
  have ks: "\<forall>a\<in>set ks. ?m a \<noteq> None \<and> - 1 \<le> counter ?m a"
    using assms by (auto simp: ks_def counters_def counter_def)
  have "fst (min_scan ?m ks ('''', - 1)) = reference_pick ?m order"
  proof (cases rule: since_minus_one_split [of ?m ks])
    case 1
    then have "\<forall>a\<in>set ks. ?m a \<noteq> None \<and> 0 \<le> counter ?m a" using ks by fastforce
    with 1 show ?thesis by (simp add: min_scan_fresh reference_pick_def Let_def flip: ks_def)
  next
    case (2 xs k)
    have sub: "set ks = set (xs @ [k]) \<union> set ys"
      using arg_cong [OF 2(1), of set] by (simp add: ys_def insert_commute)
    have "0 \<le> counter ?m a" if "a \<in> set ys" for a
    proof -
      have "- 1 \<le> counter ?m a" "counter ?m a \<noteq> - 1" using that ks sub 2(3) by (auto simp: ys_def)
      then show ?thesis by simp
    qed
    then have y: "\<forall>a\<in>set ys. ?m a \<noteq> None \<and> 0 \<le> counter ?m a" using ks sub by blast
    have "min_scan ?m (xs @ [k]) ('''', - 1) = (k, - 1)"
      using ks sub 2(2) by (intro min_scan_minus_one) auto
    then have "fst (min_scan ?m ks ('''', - 1)) = (if ys = [] then k else arg_min_list (counter ?m) ys)"
      using 2(1) min_scan_fresh [OF y, of k] min_scan_append [of ?m "xs @ [k]" ys] by (simp flip: ys_def)
    moreover have "ks \<noteq> []" "ys = [] \<Longrightarrow> last ks = k" using 2(1) by (auto simp flip: ys_def)
    ultimately show ?thesis by (simp add: reference_pick_def Let_def flip: ks_def ys_def)
  qed
  then have eq: "fst (getBackendPodAddrClntSideQLen order lb) = reference_pick ?m order"
    by (simp add: getBackendPodAddrClntSideQLen_def Let_def min_scan_counters [of ?m order] flip: ks_def)
  moreover have "reference_pick ?m order = arg_min_list (counter ?m) ks"
    if "\<forall>a\<in>set order. ?m a \<noteq> Some (- 1)" "ks \<noteq> []"
  proof -
    have "\<forall>a\<in>set ks. counter ?m a \<noteq> - 1" using that(1) by (auto simp: ks_def counters_def counter_def)
    then have "since_minus_one ?m ks = ks" by (simp add: since_minus_one_def takeWhile_eq_all_conv [THEN iffD2])
    with that(2) show ?thesis by (simp add: reference_pick_def Let_def flip: ks_def)
  qed
  ultimately show ?thesis by (simp flip: ks_def)
qed

definition picks_from :: "int \<Rightarrow> int \<Rightarrow> int \<Rightarrow> LB" where
  "picks_from x y z = \<lparr>t = LB_ClntSideQLen, podIPs = [''A'', ''B'', ''C''],
     outstandingReqs = [''A:8080'' \<mapsto> x, ''B:8080'' \<mapsto> y, ''C:8080'' \<mapsto> z], idx = 0\<rparr>"

theorem QLen_pick_is_reference_witness:
  "fst (getBackendPodAddrClntSideQLen [''A:8080'', ''B:8080'', ''C:8080''] (picks_from 2 1 1)) = ''B:8080''
   \<and> fst (getBackendPodAddrClntSideQLen [''A:8080'', ''B:8080'', ''C:8080''] (picks_from 0 (- 1) 7)) = ''C:8080''"
  using QLen_pick_is_reference [of "[''A:8080'', ''B:8080'', ''C:8080'']" "picks_from 2 1 1"]
    QLen_pick_is_reference [of "[''A:8080'', ''B:8080'', ''C:8080'']" "picks_from 0 (- 1) 7"]
  by (simp add: picks_from_def reference_pick_def counters_def counter_def since_minus_one_def)

end
