(* ===== verification/LBAbs.thy ===== *)
theory LBAbs
  imports LBMachine
begin

text \<open>
  What the load balancer promises with the queue-length policy, as an abstract dispatcher:
  it knows a growing set of addresses, and sends each request to one that has the fewest
  requests in flight. The load balancer with its counters, map traversals and pod list is
  shown to implement it. The dispatcher has one step more than one would like: a request
  that comes before any address is known goes to the empty address, which is known from
  then on.
\<close>

section \<open>The dispatcher\<close>

record dispatcher =
  known :: "string set"
  flying :: "string multiset"

inductive disp_step :: "dispatcher \<Rightarrow> dispatcher \<Rightarrow> bool" where
  dp_send: "a \<in> known d \<Longrightarrow> \<forall>b\<in>known d. count (flying d) a \<le> count (flying d) b \<Longrightarrow>
     disp_step d (d\<lparr>flying := add_mset a (flying d)\<rparr>)"
| dp_blind: "known d = {} \<Longrightarrow> disp_step d (d\<lparr>known := {''''}, flying := add_mset '''' (flying d)\<rparr>)"
| dp_finish: "a \<in># flying d \<Longrightarrow> disp_step d (d\<lparr>flying := flying d - {#a#}\<rparr>)"
| dp_learn: "disp_step d (d\<lparr>known := known d \<union> pod_addr ` set ips\<rparr>)"

definition disp_start :: "dispatcher \<Rightarrow> bool" where
  "disp_start d \<longleftrightarrow> d = \<lparr>known = {}, flying = {#}\<rparr>"

text \<open>What every dispatcher keeps: requests are in flight to known addresses only.\<close>

definition disp_inv :: "dispatcher \<Rightarrow> bool" where
  "disp_inv d \<longleftrightarrow> set_mset (flying d) \<subseteq> known d"

interpretation dpi: machine_invariant disp_start disp_step disp_inv
proof
  fix d d' assume "disp_inv d" and "disp_step d d'"
  from this(2,1) show "disp_inv d'"
    by (induction rule: disp_step.induct) (auto simp: disp_inv_def dest: in_diffD)
qed (simp add: disp_start_def disp_inv_def)

lemma known_grows: "disp_step d d' \<Longrightarrow> known d \<subseteq> known d'"
  by (induction rule: disp_step.induct) auto

lemma known_grows_steps: "disp_step\<^sup>*\<^sup>* d d' \<Longrightarrow> known d \<subseteq> known d'"
  by (induction rule: rtranclp_induct) (use known_grows in blast)+

section \<open>The load balancer as a dispatcher\<close>

definition disp_of :: "lbsys \<Rightarrow> dispatcher" where
  "disp_of s = \<lparr>known = dom (outstandingReqs (bal s)), flying = inflight s\<rparr>"

lemma load_dom: "load lb a \<noteq> 0 \<Longrightarrow> a \<in> dom (outstandingReqs lb)"
  by (auto simp: load_def split: option.splits)

lemma QLen_pick_empty:
  "covers od (outstandingReqs lb) \<Longrightarrow> outstandingReqs lb = Map.empty \<Longrightarrow> fst (getBackendPodAddrClntSideQLen od lb) = ''''"
proof -
  have "min_scan Map.empty od acc = acc" for acc
    by (induction "Map.empty :: string \<rightharpoonup> int" od acc rule: min_scan.induct) simp_all
  then show "outstandingReqs lb = Map.empty \<Longrightarrow> ?thesis" by (simp add: getBackendPodAddrClntSideQLen_def Let_def)
qed

lemma dom_refreshed:
  "dom (outstandingReqs (refreshed od eps lb)) = dom (outstandingReqs lb) \<union> pod_addr ` set (new_pods od eps lb)"
  by (auto simp: refreshed_def split: if_splits)

lemma pick_dispatch:
  assumes e: "lb_exact s" and c: "covers od (outstandingReqs (bal s))"
    and p: "getBackendPodAddr od (bal s) = Inr (a, lb')"
  shows "disp_step (disp_of s) (disp_of (s\<lparr>bal := lb', inflight := add_mset a (inflight s)\<rparr>))"
proof -
  have l: "load (bal s) b = int (count (inflight s) b)" for b using e by (simp add: lb_exact_def)
  have q: "getBackendPodAddrClntSideQLen od (bal s) = (a, lb')"
    using e p by (simp add: lb_exact_def getBackendPodAddr_def)
  then have "lb' = (bal s)\<lparr>outstandingReqs := LB.map_add (outstandingReqs (bal s)) a 1\<rparr>"
    by (auto simp: getBackendPodAddrClntSideQLen_def Let_def)
  then have d: "dom (outstandingReqs lb') = insert a (dom (outstandingReqs (bal s)))" by simp
  show ?thesis
  proof (cases "outstandingReqs (bal s) = Map.empty")
    case True
    then have "a = ''''" using QLen_pick_empty [OF c] q by simp
    with True d dp_blind [of "disp_of s"] show ?thesis by (simp add: disp_of_def)
  next
    case False
    from QLen_minimal [OF c this _ q] l have "a \<in> dom (outstandingReqs (bal s))"
      "\<forall>b\<in>dom (outstandingReqs (bal s)). count (inflight s) a \<le> count (inflight s) b" by auto
    with d dp_send [of a "disp_of s"] show ?thesis by (simp add: disp_of_def insert_absorb)
  qed
qed

lemma lb_step_dispatch:
  assumes e: "lb_exact s" and step: "lb_step False s s'"
  shows "disp_step (disp_of s) (disp_of s')"
  using step
proof cases
  case (lb_pick od a lb')
  with pick_dispatch [OF e] show ?thesis by simp
next
  case (lb_finish a)
  have "load (bal s) a = int (count (inflight s) a)" using e by (simp add: lb_exact_def)
  then have "load (bal s) a \<noteq> 0" using lb_finish(2) by simp
  then have "a \<in> dom (outstandingReqs (bal s))" by (rule load_dom)
  then have "dom (outstandingReqs (putBackendPodAddr a (bal s))) = dom (outstandingReqs (bal s))"
    by (auto simp: putBackendPodAddr_def)
  with lb_finish dp_finish [of a "disp_of s"] show ?thesis by (simp add: disp_of_def)
next
  case (lb_refresh od eps lb')
  then have "lb' = refreshed od eps (bal s)" using e by (intro monitorPods_Inr) (simp_all add: lb_exact_def)
  with lb_refresh dp_learn [of "disp_of s" "new_pods od eps (bal s)"] show ?thesis
    by (simp add: disp_of_def dom_refreshed)
qed

interpretation lbr: machine_refinement "lb_start LB_ClntSideQLen" "lb_step False" lb_exact
  disp_start disp_step disp_of
  by unfold_locales (auto simp: lb_start_def disp_start_def disp_of_def newLB_def dest: lb_step_dispatch)

section \<open>A request before the first endpoints\<close>

lemma reach_steps_dispatch:
  assumes "reach (lb_start LB_ClntSideQLen) (lb_step False) s" and "(lb_step False)\<^sup>*\<^sup>* s s'"
  shows "known (disp_of s) \<subseteq> known (disp_of s')" and "lb_exact s'"
  using lbr.steps_abs [OF assms(2) lbx.reach_inv [OF assms(1)]] lbx.steps_inv [OF assms(2) lbx.reach_inv [OF assms(1)]]
  by (auto dest: known_grows_steps)

text \<open>The empty address is the next pick when it is known and idle, and everybody else is busy.\<close>

lemma empty_picked:
  assumes "lb_exact s" and "'''' \<in> known (disp_of s)" and "count (inflight s) '''' = 0"
    and "\<forall>b\<in>known (disp_of s) - {''''}. 0 < count (inflight s) b" and "covers od (outstandingReqs (bal s))"
  shows "\<exists>lb'. getBackendPodAddr od (bal s) = Inr ('''', lb')"
proof -
  obtain a lb' where q: "getBackendPodAddrClntSideQLen od (bal s) = (a, lb')" by fastforce
  have ty: "t (bal s) = LB_ClntSideQLen" and l: "load (bal s) b = int (count (inflight s) b)" for b
    using assms(1) by (simp_all add: lb_exact_def)
  have dom: "'''' \<in> dom (outstandingReqs (bal s))" using assms(2) by (simp add: disp_of_def)
  then have ne: "outstandingReqs (bal s) \<noteq> Map.empty" by auto
  from QLen_minimal [OF assms(5) this _ q] l have "a \<in> dom (outstandingReqs (bal s))"
    "\<forall>b\<in>dom (outstandingReqs (bal s)). count (inflight s) a \<le> count (inflight s) b" by auto
  with dom assms(3) have "a \<in> known (disp_of s)" and "count (inflight s) a \<le> 0"
    by (metis disp_of_def dispatcher.select_convs(1), metis)
  then have "a = ''''" using assms(4) by (metis DiffI not_less singletonD)
  with q ty show ?thesis by (simp add: getBackendPodAddr_def)
qed

definition e_state :: "string list \<Rightarrow> (string \<rightharpoonup> int) \<Rightarrow> string multiset \<Rightarrow> lbsys" where
  "e_state pods qs fl = \<lparr>bal = \<lparr>t = LB_ClntSideQLen, podIPs = pods, outstandingReqs = qs, idx = 0\<rparr>, inflight = fl\<rparr>"

lemma e_pick:
  "getBackendPodAddr od (bal (e_state pods qs fl))
     = (let a = fst (min_scan qs od ('''', - 1)) in Inr (a, bal (e_state pods (LB.map_add qs a 1) fl)))"
  by (simp add: e_state_def getBackendPodAddr_def getBackendPodAddrClntSideQLen_def Let_def)

lemma e_start: "reach (lb_start LB_ClntSideQLen) step (e_state [] Map.empty {#})"
  by (rule reach_start) (simp add: lb_start_def e_state_def newLB_def)

lemma e_steps:
  "lb_step False (e_state [] Map.empty {#}) (e_state [] ['''' \<mapsto> 1] {#''''#})"
  "lb_step False (e_state [] ['''' \<mapsto> 1] {#''''#}) (e_state [] ['''' \<mapsto> 0] {#})"
  "lb_step False (e_state [] ['''' \<mapsto> 0] {#}) (e_state [''A''] ['''' \<mapsto> 0, ''A:8080'' \<mapsto> 0] {#})"
  "lb_step False (e_state [''A''] ['''' \<mapsto> 0, ''A:8080'' \<mapsto> 0] {#}) (e_state [''A''] ['''' \<mapsto> 0, ''A:8080'' \<mapsto> 1] {#''A:8080''#})"
proof -
  show "lb_step False (e_state [] Map.empty {#}) (e_state [] ['''' \<mapsto> 1] {#''''#})"
    using lb_pick [of "[]" "e_state [] Map.empty {#}" "''''" "bal (e_state [] ['''' \<mapsto> 1] {#})" False]
    by (simp add: e_pick Let_def map_add_def) (simp add: e_state_def covers_def)
  show "lb_step False (e_state [] ['''' \<mapsto> 1] {#''''#}) (e_state [] ['''' \<mapsto> 0] {#})"
    using lb_finish [of "''''" "e_state [] ['''' \<mapsto> 1] {#''''#}" False]
    by (simp add: e_state_def putBackendPodAddr_def map_add_def)
  have "e_state [''A''] ['''' \<mapsto> 0, ''A:8080'' \<mapsto> 0] {#}
      = (e_state [] ['''' \<mapsto> 0] {#})\<lparr>bal := refreshed [''A''] [[''A'']] (bal (e_state [] ['''' \<mapsto> 0] {#}))\<rparr>"
    by (auto simp: e_state_def refreshed_def new_pods_def pod_addr_def fun_eq_iff)
  then show "lb_step False (e_state [] ['''' \<mapsto> 0] {#}) (e_state [''A''] ['''' \<mapsto> 0, ''A:8080'' \<mapsto> 0] {#})"
    using refresh_step [of "e_state [] ['''' \<mapsto> 0] {#}" "[''A'']" "[[''A'']]" False]
    by (simp add: e_state_def wf_lb_def new_pods_def pod_addr_def)
  show "lb_step False (e_state [''A''] ['''' \<mapsto> 0, ''A:8080'' \<mapsto> 0] {#}) (e_state [''A''] ['''' \<mapsto> 0, ''A:8080'' \<mapsto> 1] {#''A:8080''#})"
    using lb_pick [of "[''A:8080'', '''']" "e_state [''A''] ['''' \<mapsto> 0, ''A:8080'' \<mapsto> 0] {#}" "''A:8080''"
        "bal (e_state [''A''] ['''' \<mapsto> 0, ''A:8080'' \<mapsto> 1] {#})" False]
    by (simp add: e_pick Let_def map_add_def) (auto simp: e_state_def covers_def)
qed

section \<open>Properties\<close>

text \<open>
  C6. With the queue-length policy and pod IPs that are not reused, the load balancer refines
  the dispatcher: every run of handlers and refreshes, over the counters, the map traversals
  and the pod list, is a run of the dispatcher, which sends every request to a known address
  with the fewest requests in flight. The counters are the numbers in flight, which only
  known addresses have, and no address is ever forgotten.
\<close>

theorem LB_is_dispatcher:
  assumes "reach (lb_start LB_ClntSideQLen) (lb_step False) s" and "(lb_step False)\<^sup>*\<^sup>* s s'"
  shows "reach disp_start disp_step (disp_of s) \<and> disp_step\<^sup>*\<^sup>* (disp_of s) (disp_of s')
    \<and> (\<forall>a. load (bal s) a = int (count (flying (disp_of s)) a))
    \<and> set_mset (flying (disp_of s)) \<subseteq> known (disp_of s) \<and> known (disp_of s) \<subseteq> known (disp_of s')"
proof -
  have e: "lb_exact s" by (rule lbx.reach_inv [OF assms(1)])
  have r: "reach disp_start disp_step (disp_of s)" by (rule lbr.reach_abs [OF assms(1)])
  with e lbr.steps_abs [OF assms(2) e] dpi.reach_inv [OF r] reach_steps_dispatch(1) [OF assms] show ?thesis
    by (simp add: lb_exact_def disp_inv_def disp_of_def)
qed

theorem LB_is_dispatcher_witness:
  "disp_step\<^sup>*\<^sup>* (disp_of (e_state [] Map.empty {#})) (disp_of (e_state [] ['''' \<mapsto> 1] {#''''#}))
   \<and> load (bal (e_state [] Map.empty {#})) ''A:8080'' = 0"
  using LB_is_dispatcher [OF e_start r_into_rtranclp, OF e_steps(1)]
  by (simp add: load_def e_state_def)

text \<open>
  C10. A request that comes before the first endpoints spoils the queue-length policy for good.
  It goes to the empty address, which is a backend from then on; and since every request to
  it fails at once, it is idle again, and while the other backends are busy the next request
  is sent to it as well and refused with status 400. \<open>get\<close> is the proxied GET, which has no
  host to ask.
\<close>

theorem early_request_spoils:
  assumes "reach (lb_start LB_ClntSideQLen) (lb_step False) s" and "outstandingReqs (bal s) = Map.empty"
    and "covers od (outstandingReqs (bal s))" and "getBackendPodAddr od (bal s) = Inr (a, lb1)"
    and "(lb_step False)\<^sup>*\<^sup>* (s\<lparr>bal := lb1, inflight := add_mset a (inflight s)\<rparr>) s'"
    and "count (inflight s') '''' = 0" and "\<forall>b\<in>known (disp_of s') - {''''}. 0 < count (inflight s') b"
    and "covers od' (outstandingReqs (bal s'))" and "get (''http:///spin?'' @ q) = Inl err"
  shows "a = '''' \<and> (\<exists>w lb2. lbHandler get od' q (bal s') = Inr (w, lb2) \<and> code w = Some 400)"
proof -
  let ?s1 = "s\<lparr>bal := lb1, inflight := add_mset a (inflight s)\<rparr>"
  have r1: "reach (lb_start LB_ClntSideQLen) (lb_step False) ?s1"
    by (rule reach_step [OF assms(1) lb_pick [OF assms(3,4)]])
  have e: "lb_exact s" by (rule lbx.reach_inv [OF assms(1)])
  then have q: "getBackendPodAddrClntSideQLen od (bal s) = (a, lb1)"
    using assms(4) by (simp add: lb_exact_def getBackendPodAddr_def)
  with QLen_pick_empty [OF assms(3,2)] have a: "a = ''''" by simp
  moreover from q a have "'''' \<in> known (disp_of ?s1)"
    by (auto simp: disp_of_def getBackendPodAddrClntSideQLen_def Let_def map_add_def)
  then have "'''' \<in> known (disp_of s')" using reach_steps_dispatch(1) [OF r1 assms(5)] by blast
  from empty_picked [OF reach_steps_dispatch(2) [OF r1 assms(5)] this assms(6-8)]
  obtain lb2 where "getBackendPodAddr od' (bal s') = Inr ('''', lb2)" by blast
  then have "\<exists>w lb2. lbHandler get od' q (bal s') = Inr (w, lb2) \<and> code w = Some 400"
    using assms(9) by (simp add: lbHandler_def Let_def http_error_def new_response_def)
  ultimately show ?thesis by blast
qed

theorem early_request_spoils_witness:
  "\<exists>w lb2. lbHandler (\<lambda>u. if u = ''http:///spin?id=1'' then Inl ''no Host in request URL'' else Inr (''ok'', None))
      [''A:8080'', ''''] ''id=1'' (bal (e_state [''A''] ['''' \<mapsto> 0, ''A:8080'' \<mapsto> 1] {#''A:8080''#})) = Inr (w, lb2)
    \<and> code w = Some 400"
proof -
  let ?s = "e_state [] Map.empty {#}" and ?u = "e_state [''A''] ['''' \<mapsto> 0, ''A:8080'' \<mapsto> 1] {#''A:8080''#}"
  have p: "getBackendPodAddr [] (bal ?s) = Inr ('''', bal (e_state [] ['''' \<mapsto> 1] {#}))"
    by (simp add: e_pick map_add_def)
  have s1: "?s\<lparr>bal := bal (e_state [] ['''' \<mapsto> 1] {#}), inflight := add_mset '''' (inflight ?s)\<rparr> = e_state [] ['''' \<mapsto> 1] {#''''#}"
    by (simp add: e_state_def)
  have run: "(lb_step False)\<^sup>*\<^sup>* (e_state [] ['''' \<mapsto> 1] {#''''#}) ?u"
    using e_steps(2-4) by (meson converse_rtranclp_into_rtranclp rtranclp.rtrancl_refl)
  have c: "covers [] (outstandingReqs (bal ?s))" "outstandingReqs (bal ?s) = Map.empty"
    "covers [''A:8080'', ''''] (outstandingReqs (bal ?u))" "count (inflight ?u) '''' = 0"
    "\<forall>b\<in>known (disp_of ?u) - {''''}. 0 < count (inflight ?u) b"
    by (auto simp: e_state_def covers_def disp_of_def split: if_splits)
  show ?thesis
    using early_request_spoils [OF e_start c(2,1) p _ c(4,5,3), unfolded s1, OF run] by simp
qed

end
