(* ===== verification/GoTime.thy ===== *)
theory GoTime
  imports GoStr
begin

text \<open>
  The part of Go's \<open>time\<close> package the programs use on strings: \<open>time.ParseDuration\<close>.
  A \<open>Duration\<close> is a count of nanoseconds in an \<open>int64\<close>, kept as an \<open>int\<close> in that range.
  The parser follows the library: an optional sign, then one or more groups of digits, an
  optional fraction, and a unit; \<open>"0"\<close> alone needs no unit. Every error is \<open>None\<close>. The
  library evaluates a fraction in \<open>float64\<close>; the model truncates the exact value.
\<close>

definition Second :: int where "Second = 1000000000"
definition Millisecond :: int where "Millisecond = 1000000"

definition unit_ns :: "string \<Rightarrow> nat option" where
  "unit_ns u =
     (if u = ''ns'' then Some 1
      else if u = ''us'' \<or> u = [CHR 0xC2, CHR 0xB5, CHR ''s''] \<or> u = [CHR 0xCE, CHR 0xBC, CHR ''s''] then Some 1000
      else if u = ''ms'' then Some 1000000
      else if u = ''s'' then Some 1000000000
      else if u = ''m'' then Some 60000000000
      else if u = ''h'' then Some 3600000000000
      else None)"

definition is_digit :: "char \<Rightarrow> bool" where
  "is_digit c \<longleftrightarrow> digit_val c \<noteq> None"

definition digits_val :: "string \<Rightarrow> nat" where
  "digits_val ds = (case parse_digits 0 ds of None \<Rightarrow> 0 | Some v \<Rightarrow> v)"

text \<open>An optional fraction: its digits, and the rest.\<close>

definition split_fraction :: "string \<Rightarrow> string \<times> string" where
  "split_fraction s =
     (if s \<noteq> [] \<and> hd s = CHR ''.'' then (takeWhile is_digit (tl s), dropWhile is_digit (tl s))
      else ([], s))"

definition unit_char :: "char \<Rightarrow> bool" where
  "unit_char c \<longleftrightarrow> c \<noteq> CHR ''.'' \<and> \<not> is_digit c"

text \<open>One group: its value in nanoseconds and the rest of the string.\<close>

definition parse_group :: "string \<Rightarrow> (nat \<times> string) option" where
  "parse_group s =
     (let ds = takeWhile is_digit s; s1 = dropWhile is_digit s;
          v = digits_val ds;
          (fs, s2) = split_fraction s1;
          u = takeWhile unit_char s2; s3 = dropWhile unit_char s2
      in if v > 2 ^ 63 \<or> (ds = [] \<and> fs = []) then None
         else (case unit_ns u of
                 None \<Rightarrow> None
               | Some unit \<Rightarrow>
                   if v > 2 ^ 63 div unit then None
                   else let w = v * unit + digits_val fs * unit div 10 ^ length fs in
                     if w > 2 ^ 63 then None else Some (w, s3)))"

lemma dropWhile_shorter: "takeWhile P xs \<noteq> [] \<Longrightarrow> length (dropWhile P xs) < length xs"
  by (cases xs) (auto simp: length_dropWhile_le less_Suc_eq_le split: if_splits)

lemma parse_group_shorter: "parse_group s = Some (w, r) \<Longrightarrow> length r < length s"
proof -
  assume a: "parse_group s = Some (w, r)"
  obtain fs s2 where s2: "split_fraction (dropWhile is_digit s) = (fs, s2)" by fastforce
  with a have "unit_ns (takeWhile unit_char s2) \<noteq> None" and r: "r = dropWhile unit_char s2"
    by (auto simp: parse_group_def Let_def split: if_splits option.splits)
  then have "takeWhile unit_char s2 \<noteq> []" by (auto simp: unit_ns_def)
  then have "length r < length s2" unfolding r by (rule dropWhile_shorter)
  also have "length s2 \<le> length (dropWhile is_digit s)"
    using s2 length_dropWhile_le [of is_digit "tl (dropWhile is_digit s)"]
    by (auto simp: split_fraction_def split: if_splits)
  also have "\<dots> \<le> length s" by (rule length_dropWhile_le)
  finally show "length r < length s" .
qed

function parse_groups :: "nat \<Rightarrow> string \<Rightarrow> nat option" where
  "parse_groups d s =
     (if s = [] then Some d
      else (case parse_group s of
              None \<Rightarrow> None
            | Some (w, r) \<Rightarrow> if d + w > 2 ^ 63 then None else parse_groups (d + w) r))"
  by pat_completeness auto
termination
  by (relation "measure (\<lambda>(d, s). length s)") (auto dest: parse_group_shorter)

declare parse_groups.simps [simp del]

definition ParseDuration :: "string \<Rightarrow> int option" where
  "ParseDuration s =
     (let (neg, r) = split_sign s
      in if r = ''0'' then Some 0
         else if r = [] then None
         else (case parse_groups 0 r of
                 None \<Rightarrow> None
               | Some d \<Rightarrow> if neg then Some (- int d)
                            else if d > 2 ^ 63 - 1 then None else Some (int d)))"

lemma ParseDuration_examples:
  "ParseDuration ''1.5s'' = Some 1500000000" "ParseDuration ''-2m10ms'' = Some (- 120010000000)"
  "ParseDuration ''5'' = None" "ParseDuration ''s'' = None" "ParseDuration ''0'' = Some 0"
  by (simp_all add: ParseDuration_def split_sign_def parse_groups.simps parse_group_def Let_def
      split_fraction_def unit_char_def is_digit_def digits_val_def digit_val_def unit_ns_def)

text \<open>A parsed duration is always in the range of \<open>int64\<close>.\<close>

lemma parse_groups_range: "parse_groups d s = Some v \<Longrightarrow> d \<le> 2 ^ 63 \<Longrightarrow> v \<le> 2 ^ 63"
proof (induction d s rule: parse_groups.induct)
  case (1 d s)
  then show ?case
    by (auto simp: parse_groups.simps [of d s] split: if_splits option.splits prod.splits)
qed

lemma ParseDuration_range:
  assumes "ParseDuration s = Some d"
  shows "in_int64 d"
proof -
  obtain neg r where "split_sign s = (neg, r)" by fastforce
  with assms consider "d = 0" | v where "parse_groups 0 r = Some v" "d = - int v"
    | v where "d = int v" "v \<le> 2 ^ 63 - 1"
    by (auto simp: ParseDuration_def split: if_splits option.splits)
  then show ?thesis
  proof cases
    case (2 v)
    then show ?thesis using parse_groups_range [of 0 r v] by (simp add: in_int64_def)
  qed (simp_all add: in_int64_def)
qed

end
