(* ===== verification/SpinSrv.thy ===== *)
theory SpinSrv
  imports GoHttp GoTime
begin

text \<open>
  \<open>kubernetes/elasticity/cmd/spinhttpsrv/main.go\<close>: a compute-bound web server with a queue
  and a fixed number of workers. This theory holds the data, the request-rate estimate
  and the sequential parts of handler and worker; \<open>SpinQueue\<close> runs them concurrently.
  Clock readings are arguments, in milliseconds since the epoch for the rate and in
  nanoseconds for durations. A rate is the exact rational; the code rounds it to
  \<open>float64\<close>.
\<close>

unbundle bit_operations_syntax

section \<open>Requests and the server\<close>

record request =
  rq_replicaID :: int
  rq_id :: string
  rq_start :: int
  rq_dur :: int
  rq_rps :: rat
  rq_qlat :: int
  rq_qlenStart :: int
  rq_qlenFinish :: int
  rq_isDone :: bool

definition newRequest :: "int \<Rightarrow> int \<Rightarrow> string \<Rightarrow> int \<Rightarrow> request" where
  "newRequest now replica rid dur =
     \<lparr>rq_replicaID = replica, rq_id = rid, rq_start = now, rq_dur = dur, rq_rps = 0, rq_qlat = 0,
      rq_qlenStart = 0, rq_qlenFinish = 0, rq_isDone = False\<rparr>"

record srv =
  replicaID :: int
  nslots :: int
  reqCntIdx :: nat
  reqCnts :: "int list"

definition newSrv :: "int \<Rightarrow> int \<Rightarrow> srv" where
  "newSrv replica slots = \<lparr>replicaID = replica, nslots = slots, reqCntIdx = 0, reqCnts = [0, 0]\<rparr>"

text \<open>\<open>main\<close>: the number of slots comes from the command line, unchecked.\<close>

definition spin_main :: "int \<Rightarrow> string list \<Rightarrow> go_stop + srv" where
  "spin_main replica args =
     (if length args \<noteq> 2 then Inl (Fatal ''Usage'')
      else (case Atoi (args ! 1) of
              None \<Rightarrow> Inl (Fatal ''Err parse nslots'')
            | Some slots \<Rightarrow> Inr (newSrv replica slots)))"

section \<open>The request rate\<close>

definition rate_idx :: "nat \<Rightarrow> nat" where
  "rate_idx ms = (ms div 1000) mod 10 div 5"

definition maybeClearRequestRateL :: "nat \<Rightarrow> srv \<Rightarrow> srv" where
  "maybeClearRequestRateL i s =
     (if reqCntIdx s \<noteq> i then s\<lparr>reqCntIdx := i, reqCnts := (reqCnts s)[i := 0]\<rparr> else s)"

definition updateRequestRate :: "nat \<Rightarrow> srv \<Rightarrow> srv" where
  "updateRequestRate ms s =
     (let i = rate_idx ms; s1 = maybeClearRequestRateL i s
      in s1\<lparr>reqCnts := (reqCnts s1)[i := reqCnts s1 ! i + 1]\<rparr>)"

definition getRequestRate :: "nat \<Rightarrow> srv \<Rightarrow> rat \<times> srv" where
  "getRequestRate ms s =
     (let i = rate_idx ms; s1 = maybeClearRequestRateL i s
      in (of_int (reqCnts s1 ! (i XOR 1)) / 5, s1))"

section \<open>The handler up to the queue, and the worker's steps\<close>

text \<open>
  \<open>query\<close> is the lookup of a query parameter, empty when absent. A bad request is answered;
  a good one is counted, and becomes a request for the queue.
\<close>

definition spinHandler :: "(string \<Rightarrow> string) \<Rightarrow> nat \<Rightarrow> srv \<Rightarrow> response + request \<times> srv" where
  "spinHandler query ms s =
     (let rid = query ''id''; dstr = query ''dur'' in
      if rid = '''' then Inl (http_error ''Please specify request ID'' 400 new_response)
      else if dstr = '''' then Inl (http_error ''Please specify spin duration'' 400 new_response)
      else (case ParseDuration dstr of
              None \<Rightarrow> Inl (http_error ''Error parsing spin duration'' 400 new_response)
            | Some dur \<Rightarrow>
                let s1 = updateRequestRate ms s
                in Inr (newRequest (int ms * Millisecond) (replicaID s1) rid dur, s1)))"

definition enqueue_load :: "int \<Rightarrow> request \<Rightarrow> request" where
  "enqueue_load qlen r = r\<lparr>rq_qlenStart := qlen\<rparr>"

definition worker_dequeue :: "int \<Rightarrow> request \<Rightarrow> request" where
  "worker_dequeue now r = r\<lparr>rq_qlat := now - rq_start r\<rparr>"

definition worker_finish :: "int \<Rightarrow> request \<Rightarrow> request" where
  "worker_finish qlen r = r\<lparr>rq_qlenFinish := qlen\<rparr>"

definition request_done :: "request \<Rightarrow> request" where
  "request_done r = r\<lparr>rq_isDone := True\<rparr>"

section \<open>Spinning\<close>

text \<open>\<open>time.Duration(x)\<close> and \<open>int64(x)\<close> of a float truncate.\<close>

definition trunc_rat :: "rat \<Rightarrow> int" where
  "trunc_rat x = (if x < 0 then \<lceil>x\<rceil> else \<lfloor>x\<rfloor>)"

text \<open>
  \<open>getFirstSleep\<close>: \<open>rand.Int63n(n)\<close> panics unless \<open>n > 0\<close>, and gives some number below
  \<open>n\<close> otherwise, here \<open>r mod n\<close>. Times are nanoseconds since the start of the spin.
\<close>

definition getFirstSleep :: "int \<Rightarrow> rat \<Rightarrow> go_stop + int" where
  "getFirstSleep r nMSToSleep =
     (if trunc_rat nMSToSleep \<le> 0 then Inl (Panic ''invalid argument to Int63n'')
      else Inr (Millisecond * (r mod trunc_rat nMSToSleep)))"

record spin_st =
  sp_now :: int
  sp_nextSleep :: int
  sp_n :: int64
  sp_i :: nat

text \<open>
  One turn of the loop; \<open>None\<close> is the break. \<open>cost i\<close> is the CPU time of turn \<open>i\<close>, and
  sleeping for a negative time returns at once. The product wraps at 64 bits.
\<close>

definition spin_turn :: "(nat \<Rightarrow> int) \<Rightarrow> int \<Rightarrow> int \<Rightarrow> int \<Rightarrow> spin_st \<Rightarrow> spin_st option" where
  "spin_turn cost dur timeToSpin timeToSleep st =
     (let i = Suc (sp_i st) in
      if i mod 10000 = 0 \<and> sp_now st \<ge> dur then None
      else
        let st1 = (if sp_now st > sp_nextSleep st
                   then let t = sp_now st + max 0 (min timeToSleep (dur - sp_now st))
                        in st\<lparr>sp_now := t, sp_nextSleep := t + timeToSpin\<rparr>
                   else st)
        in Some (st1\<lparr>sp_i := i, sp_n := sp_n st * (of_nat i * of_nat i + 2), sp_now := sp_now st1 + cost i\<rparr>))"

fun spin_loop :: "nat \<Rightarrow> (nat \<Rightarrow> int) \<Rightarrow> int \<Rightarrow> int \<Rightarrow> int \<Rightarrow> spin_st \<Rightarrow> spin_st option" where
  "spin_loop 0 cost dur timeToSpin timeToSleep st = None"
| "spin_loop (Suc fuel) cost dur timeToSpin timeToSleep st =
     (case spin_turn cost dur timeToSpin timeToSleep st of
        None \<Rightarrow> Some st
      | Some st' \<Rightarrow> spin_loop fuel cost dur timeToSpin timeToSleep st')"

definition spin :: "nat \<Rightarrow> (nat \<Rightarrow> int) \<Rightarrow> int \<Rightarrow> int \<Rightarrow> rat \<Rightarrow> go_stop + spin_st option" where
  "spin fuel cost r dur spinFrac =
     (let nMSToSpin = spinFrac * 1000;
          timeToSpin = Millisecond * trunc_rat nMSToSpin;
          nMSToSleep = 1000 - nMSToSpin;
          timeToSleep = Millisecond * trunc_rat nMSToSleep
      in (case getFirstSleep r nMSToSleep of
            Inl stop \<Rightarrow> Inl stop
          | Inr nextSleep \<Rightarrow>
              Inr (spin_loop fuel cost dur timeToSpin timeToSleep
                     \<lparr>sp_now = 0, sp_nextSleep = nextSleep, sp_n = 1, sp_i = 1\<rparr>)))"

text \<open>What a worker calls: \<open>spin(r.dur, 1.0/float64(s.nslots))\<close>.\<close>

definition worker_spin :: "nat \<Rightarrow> (nat \<Rightarrow> int) \<Rightarrow> int \<Rightarrow> srv \<Rightarrow> request \<Rightarrow> go_stop + spin_st option" where
  "worker_spin fuel cost r s rq = spin fuel cost r (rq_dur rq) (1 / of_int (nslots s))"

section \<open>The rate is the previous window's\<close>

definition window :: "nat \<Rightarrow> nat" where
  "window ms = ms div 5000"

lemma rate_idx_window: "rate_idx ms = window ms mod 2"
proof -
  have "ms div 5000 = ms div 1000 div 5" by (simp add: div_mult2_eq [symmetric])
  moreover have "x mod 10 div 5 = x div 5 mod 2" for x :: nat
    using mod_mult2_eq [of x 5 2] by simp
  ultimately show ?thesis by (simp add: rate_idx_def window_def)
qed

text \<open>A history of calls: each has a time and is an update (\<open>True\<close>) or a read.\<close>

fun run_rate :: "(nat \<times> bool) list \<Rightarrow> srv \<Rightarrow> srv" where
  "run_rate [] s = s"
| "run_rate ((ms, upd) # es) s =
     run_rate es (if upd then updateRequestRate ms s else snd (getRequestRate ms s))"

text \<open>The calls move forward through the windows without skipping one.\<close>

fun steady :: "nat \<Rightarrow> nat list \<Rightarrow> bool" where
  "steady w [] = True"
| "steady w (ms # mss) = (w \<le> window ms \<and> window ms \<le> Suc w \<and> steady (window ms) mss)"

definition updates :: "(nat \<times> bool) list \<Rightarrow> nat list" where
  "updates es = map fst (filter snd es)"

definition in_window :: "nat \<Rightarrow> nat list \<Rightarrow> int" where
  "in_window w us = int (length (filter (\<lambda>u. window u = w) us))"

definition before_window :: "nat \<Rightarrow> nat list \<Rightarrow> int" where
  "before_window w us = int (length (filter (\<lambda>u. Suc (window u) = w) us))"

definition rate_inv :: "nat \<Rightarrow> nat list \<Rightarrow> srv \<Rightarrow> bool" where
  "rate_inv w us s \<longleftrightarrow> length (reqCnts s) = 2 \<and> (us = [] \<or> reqCntIdx s = w mod 2)
     \<and> reqCntIdx s < 2
     \<and> (\<forall>u\<in>set us. window u \<le> w)
     \<and> reqCnts s ! (w mod 2) = in_window w us \<and> reqCnts s ! (1 - w mod 2) = before_window w us"

lemma in_window_simps [simp]:
  "in_window w [] = 0" "before_window w [] = 0"
  "in_window w (us @ [u]) = in_window w us + of_bool (window u = w)"
  "before_window w (us @ [u]) = before_window w us + of_bool (Suc (window u) = w)"
  by (simp_all add: in_window_def before_window_def)

lemma in_window_beyond: "\<forall>u\<in>set us. window u \<le> w \<Longrightarrow> in_window (Suc w) us = 0"
  by (auto simp: in_window_def filter_empty_conv)

lemma before_window_Suc: "before_window (Suc w) us = in_window w us"
  by (simp add: in_window_def before_window_def)

lemma mod2_cases: obtains "w mod 2 = (0 :: nat)" "Suc w mod 2 = 1" | "w mod 2 = 1" "Suc w mod 2 = 0"
  by (cases "w mod 2 = 0") (auto simp: mod_Suc)

text \<open>Entering a window, by whichever call comes first in it.\<close>

lemma rate_inv_clear:
  assumes "rate_inv w us s" and "w \<le> window ms" and "window ms \<le> Suc w"
  shows "rate_inv (window ms) us (maybeClearRequestRateL (rate_idx ms) s)
    \<and> reqCntIdx (maybeClearRequestRateL (rate_idx ms) s) = window ms mod 2"
proof -
  obtain a b where ab: "reqCnts s = [a, b]"
    using assms(1) by (auto simp: rate_inv_def length_Suc_conv numeral_2_eq_2)
  have idx: "reqCntIdx s < 2" using assms(1) by (simp add: rate_inv_def)
  consider "window ms = w" | "window ms = Suc w" using assms(2,3) by linarith
  then show ?thesis
  proof cases
    case 1
    show ?thesis
      by (cases rule: mod2_cases [of w]; cases "us = []")
         (use assms(1) 1 ab idx in \<open>auto simp: rate_inv_def maybeClearRequestRateL_def rate_idx_window\<close>)
  next
    case 2
    show ?thesis
      by (cases rule: mod2_cases [of w]; cases "us = []")
         (use assms(1) 2 ab idx in \<open>auto simp: rate_inv_def maybeClearRequestRateL_def rate_idx_window
            in_window_beyond before_window_Suc\<close>)
  qed
qed

text \<open>Leaving the tally: an update adds the call's own time.\<close>

lemma rate_inv_update:
  assumes "rate_inv w us s" and "w \<le> window ms" and "window ms \<le> Suc w"
  shows "rate_inv (window ms) (us @ [ms]) (updateRequestRate ms s)"
proof -
  let ?s1 = "maybeClearRequestRateL (rate_idx ms) s"
  from rate_inv_clear [OF assms] have inv: "rate_inv (window ms) us ?s1"
    and idx: "reqCntIdx ?s1 = window ms mod 2" by simp_all
  then obtain a b where ab: "reqCnts ?s1 = [a, b]"
    by (auto simp: rate_inv_def length_Suc_conv numeral_2_eq_2)
  show ?thesis
    by (cases rule: mod2_cases [of "window ms"])
       (use inv idx ab in \<open>auto simp: rate_inv_def updateRequestRate_def Let_def rate_idx_window\<close>)
qed

lemma getRequestRate_rate:
  assumes "rate_inv w us s" and "w \<le> window ms" and "window ms \<le> Suc w"
  shows "fst (getRequestRate ms s) = of_int (before_window (window ms) us) / 5
    \<and> rate_inv (window ms) us (snd (getRequestRate ms s))"
proof -
  from rate_inv_clear [OF assms]
  have inv: "rate_inv (window ms) us (maybeClearRequestRateL (rate_idx ms) s)" by simp
  have "(window ms mod 2) XOR 1 = 1 - window ms mod 2"
    by (cases rule: mod2_cases [of "window ms"]) simp_all
  with inv show ?thesis
    by (simp add: getRequestRate_def Let_def rate_inv_def rate_idx_window)
qed

lemma run_rate_inv:
  "rate_inv w us s \<Longrightarrow> steady w (map fst es @ mss) \<Longrightarrow>
     \<exists>w'. rate_inv w' (us @ updates es) (run_rate es s) \<and> steady w' mss"
proof (induction es arbitrary: w us s)
  case Nil
  then show ?case by (auto simp: updates_def)
next
  case (Cons e es)
  obtain ms upd where e: "e = (ms, upd)" by fastforce
  with Cons.prems(2) have w: "w \<le> window ms" "window ms \<le> Suc w" "steady (window ms) (map fst es @ mss)"
    by simp_all
  show ?case
  proof (cases upd)
    case True
    with Cons.IH [OF rate_inv_update [OF Cons.prems(1) w(1,2)] w(3)] e show ?thesis
      by (simp add: updates_def)
  next
    case False
    with Cons.IH [OF conjunct2 [OF getRequestRate_rate [OF Cons.prems(1) w(1,2)]] w(3)] e show ?thesis
      by (simp add: updates_def)
  qed
qed

lemma rate_inv_newSrv: "rate_inv w [] (newSrv replica slots)"
  by (cases rule: mod2_cases [of w]) (simp_all add: rate_inv_def newSrv_def)

section \<open>Properties of the rate\<close>

text \<open>
  C27. The rate that \<open>getRequestRate\<close> reports is the number of requests counted in the
  five-second window before the current one, divided by five, for every history of calls
  that starts anywhere and skips no window.
\<close>

theorem rate_of_previous_window:
  assumes "steady w (map fst es @ [ms])"
  shows "fst (getRequestRate ms (run_rate es (newSrv replica slots)))
    = of_nat (length (filter (\<lambda>u. Suc (window u) = window ms) (updates es))) / 5"
proof -
  from run_rate_inv [OF rate_inv_newSrv assms, of replica slots] obtain w' where
    "rate_inv w' (updates es) (run_rate es (newSrv replica slots))" "w' \<le> window ms" "window ms \<le> Suc w'"
    by auto
  from getRequestRate_rate [OF this] show ?thesis by (simp add: before_window_def)
qed

theorem rate_of_previous_window_witness:
  "fst (getRequestRate 12000 (run_rate [(6000, True), (7500, True), (10100, True)] (newSrv 7 2))) = 2 / 5"
  using rate_of_previous_window [of 1 "[(6000, True), (7500, True), (10100, True)]" 12000 7 2]
  by (simp add: window_def updates_def)

text \<open>
  After an idle window the estimate is stale: three requests in the first window and
  none since are still reported as 3/5 per second in the fourth window, and a request in
  the third window finds the bucket of the first window uncleared and adds to it.
\<close>

theorem rate_stale_after_idle:
  "fst (getRequestRate 15000 (run_rate [(0, True), (1000, True), (2000, True)] (newSrv 7 2))) = 3 / 5
   \<and> fst (getRequestRate 15000 (run_rate [(0, True), (1000, True), (2000, True), (10000, True)] (newSrv 7 2))) = 4 / 5"
  by (simp add: getRequestRate_def updateRequestRate_def maybeClearRequestRateL_def rate_idx_def newSrv_def Let_def)

end
