(* ===== verification/SpinLoop.thy ===== *)
theory SpinLoop
  imports SpinSrv
begin

text \<open>
  The spin loop of the web server: it stops, not before the requested duration and at most
  10000 turns of CPU time after it, since a sleep never passes the end; and the set-up
  panics for a server with one slot.
\<close>

section \<open>One turn\<close>

lemma spin_turn_None: "spin_turn cost dur a b st = None \<longleftrightarrow> Suc (sp_i st) mod 10000 = 0 \<and> dur \<le> sp_now st"
  by (simp add: spin_turn_def Let_def)

lemma spin_turn_Some:
  assumes "spin_turn cost dur a b st = Some st'"
  shows "sp_i st' = Suc (sp_i st)"
    and "sp_now st + cost (sp_i st') \<le> sp_now st'"
    and "sp_now st' \<le> max (sp_now st) dur + cost (sp_i st')"
  using assms by (auto simp: spin_turn_def Let_def split: if_splits)

section \<open>Stopping\<close>

lemma spin_loop_stops_late:
  assumes "\<And>i. 1 \<le> cost i"
  shows "dur \<le> sp_now st \<Longrightarrow> 9999 - sp_i st mod 10000 < fuel \<Longrightarrow> \<exists>st'. spin_loop fuel cost dur a b st = Some st'"
proof (induction fuel arbitrary: st)
  case (Suc fuel)
  show ?case
  proof (cases "spin_turn cost dur a b st")
    case None
    then show ?thesis by simp
  next
    case (Some st')
    note turn = spin_turn_Some [OF Some]
    have "Suc (sp_i st) mod 10000 \<noteq> 0"
      using Some Suc.prems(1) spin_turn_None [of cost dur a b st] by auto
    then have "sp_i st' mod 10000 = Suc (sp_i st mod 10000)"
      using turn(1) by (simp add: mod_Suc split: if_splits)
    moreover have "dur \<le> sp_now st'"
      using turn(2) assms [of "sp_i st'"] Suc.prems(1) by simp
    ultimately have "\<exists>st''. spin_loop fuel cost dur a b st' = Some st''"
      using Suc.prems(2) by (intro Suc.IH) simp_all
    with Some show ?thesis by simp
  qed
qed simp

lemma spin_loop_stops:
  assumes "\<And>i. 1 \<le> cost i"
  shows "nat (dur - sp_now st) + 9999 < fuel \<Longrightarrow> \<exists>st'. spin_loop fuel cost dur a b st = Some st'"
proof (induction fuel arbitrary: st)
  case (Suc fuel)
  show ?case
  proof (cases "dur \<le> sp_now st")
    case True
    with Suc.prems show ?thesis by (intro spin_loop_stops_late assms) simp_all
  next
    case False
    then obtain st' where turn: "spin_turn cost dur a b st = Some st'"
      using spin_turn_None [of cost dur a b st] by fastforce
    have "nat (dur - sp_now st') + 9999 < fuel"
      using spin_turn_Some(2) [OF turn] assms [of "sp_i st'"] False Suc.prems by linarith
    with Suc.IH turn show ?thesis by simp
  qed
qed simp

section \<open>How long it ran\<close>

definition spin_inv :: "int \<Rightarrow> int \<Rightarrow> spin_st \<Rightarrow> bool" where
  "spin_inv c dur st \<longleftrightarrow> sp_now st \<le> max 0 dur + c * (int (sp_i st mod 10000) + 1)"

lemma spin_inv_turn:
  assumes "\<And>i. cost i \<le> c" and "0 \<le> c" and "spin_inv c dur st" and "spin_turn cost dur a b st = Some st'"
  shows "spin_inv c dur st'"
proof -
  note turn = spin_turn_Some [OF assms(4)]
  have now: "sp_now st' \<le> max (sp_now st) dur + c"
    using turn(3) assms(1) [of "sp_i st'"] by simp
  show ?thesis
  proof (cases "Suc (sp_i st) mod 10000 = 0")
    case True
    then have "sp_now st < dur"
      using assms(4) spin_turn_None [of cost dur a b st] by auto
    with now True turn(1) show ?thesis by (simp add: spin_inv_def)
  next
    case False
    then have m: "int (sp_i st' mod 10000) = int (sp_i st mod 10000) + 1"
      using turn(1) by (simp add: mod_Suc split: if_splits)
    have "0 \<le> c * (int (sp_i st mod 10000) + 1)" using assms(2) by simp
    with assms(3) have "max (sp_now st) dur \<le> max 0 dur + c * (int (sp_i st mod 10000) + 1)"
      by (auto simp: spin_inv_def)
    with now have "sp_now st' \<le> max 0 dur + c * (int (sp_i st mod 10000) + 1) + c" by linarith
    then show ?thesis by (simp add: spin_inv_def m distrib_left)
  qed
qed

lemma spin_loop_bounds:
  assumes "\<And>i. cost i \<le> c" and "0 \<le> c"
  shows "spin_inv c dur st \<Longrightarrow> spin_loop fuel cost dur a b st = Some st' \<Longrightarrow>
    dur \<le> sp_now st' \<and> sp_now st' \<le> max 0 dur + 10000 * c"
proof (induction fuel arbitrary: st)
  case (Suc fuel)
  show ?case
  proof (cases "spin_turn cost dur a b st")
    case None
    then have "sp_i st mod 10000 = 9999" "dur \<le> sp_now st"
      by (auto simp: spin_turn_None mod_Suc split: if_splits)
    with None Suc.prems show ?thesis by (simp add: spin_inv_def algebra_simps)
  next
    case (Some st1)
    with Suc.prems(2) have "spin_loop fuel cost dur a b st1 = Some st'" by simp
    with Suc.IH spin_inv_turn [OF assms Suc.prems(1) Some] show ?thesis by blast
  qed
qed simp

section \<open>The set-up\<close>

lemma sleep_ms_pos_iff:
  assumes "0 < k"
  shows "trunc_rat (1000 - 1 / of_int k * 1000) \<le> 0 \<longleftrightarrow> k = 1"
proof (cases "k = 1")
  case True
  then show ?thesis by (simp add: trunc_rat_def)
next
  case False
  with assms have "2 \<le> k" by simp
  then have "(2 :: rat) \<le> of_int k" by (metis of_int_le_iff of_int_numeral)
  then have "1 / of_int k * 1000 \<le> (500 :: rat)" by (simp add: field_simps)
  then have "\<not> trunc_rat (1000 - 1 / of_int k * 1000) \<le> 0"
    by (simp add: trunc_rat_def not_le zero_less_floor)
  with False show ?thesis by simp
qed

definition spin_start :: "int \<Rightarrow> spin_st" where
  "spin_start ns = \<lparr>sp_now = 0, sp_nextSleep = ns, sp_n = 1, sp_i = 1\<rparr>"

lemma worker_spin_starts:
  assumes "2 \<le> nslots s"
  shows "\<exists>ns a b. worker_spin fuel cost r s rq = Inr (spin_loop fuel cost (rq_dur rq) a b (spin_start ns))"
proof -
  have "\<not> trunc_rat (1000 - 1 / of_int (nslots s) * 1000) \<le> 0"
    using sleep_ms_pos_iff [of "nslots s"] assms by simp
  then show ?thesis
    by (simp add: worker_spin_def spin_def Let_def getFirstSleep_def spin_start_def) blast
qed

lemma worker_spin_comes_back:
  assumes "2 \<le> nslots s"
  shows "\<exists>fuel st. worker_spin fuel (\<lambda>_. 1) r s rq = Inr (Some st)"
proof -
  let ?fuel = "nat (rq_dur rq) + 10000"
  from worker_spin_starts [OF assms] obtain ns a b where
    spin: "worker_spin ?fuel (\<lambda>_. 1) r s rq = Inr (spin_loop ?fuel (\<lambda>_. 1) (rq_dur rq) a b (spin_start ns))"
    by blast
  have "\<exists>st. spin_loop ?fuel (\<lambda>_. 1) (rq_dur rq) a b (spin_start ns) = Some st"
    by (intro spin_loop_stops) (simp_all add: spin_start_def)
  with spin have "\<exists>st. worker_spin ?fuel (\<lambda>_. 1) r s rq = Inr (Some st)" by simp
  then show ?thesis by blast
qed

section \<open>Properties\<close>

text \<open>
  A server with one slot cannot serve a request: \<open>rand.Int63n(0)\<close> panics in its only
  worker. With any larger number of slots the set-up of the spin never panics.
\<close>

theorem one_slot_panics:
  assumes "0 < nslots s"
  shows "(\<exists>stop. worker_spin fuel cost r s rq = Inl stop) \<longleftrightarrow> nslots s = 1"
  using sleep_ms_pos_iff [OF assms]
  by (auto simp: worker_spin_def spin_def Let_def getFirstSleep_def split: sum.splits)

theorem one_slot_panics_witness:
  "\<exists>stop. worker_spin 1 (\<lambda>i. 1) 0 (newSrv 7 1) (newRequest 0 7 ''1'' 2) = Inl stop"
  using one_slot_panics [of "newSrv 7 1" 1 "\<lambda>i. 1" 0 "newRequest 0 7 ''1'' 2"] by (simp add: newSrv_def)

text \<open>
  C26. A worker of a server with two or more slots comes back from spinning: if every turn of
  the loop costs at least a nanosecond and at most \<open>c\<close>, it stops within \<open>dur + 10000\<close>
  turns, no earlier than the requested duration and no later than 10000 turns of CPU time
  after it; the sleeps in between never run past the end.
\<close>

theorem spin_stops:
  assumes "2 \<le> nslots s" and "\<And>i. 1 \<le> cost i" and "\<And>i. cost i \<le> c"
    and "nat (rq_dur rq) + 9999 < fuel"
  shows "\<exists>st. worker_spin fuel cost r s rq = Inr (Some st)
    \<and> rq_dur rq \<le> sp_now st \<and> sp_now st \<le> max 0 (rq_dur rq) + 10000 * c"
proof -
  have c: "0 \<le> c" using assms(2,3) [of 0] by linarith
  from worker_spin_starts [OF assms(1)] obtain ns a b where
    spin: "worker_spin fuel cost r s rq = Inr (spin_loop fuel cost (rq_dur rq) a b (spin_start ns))" by blast
  obtain st where st: "spin_loop fuel cost (rq_dur rq) a b (spin_start ns) = Some st"
    using spin_loop_stops [of cost "rq_dur rq" "spin_start ns" fuel a b] assms(2,4)
    by (auto simp: spin_start_def)
  have "spin_inv c (rq_dur rq) (spin_start ns)" using c by (simp add: spin_inv_def spin_start_def)
  with spin_loop_bounds [OF assms(3) c _ st] spin st show ?thesis by simp
qed

theorem spin_stops_witness:
  "\<exists>st. worker_spin 10002 (\<lambda>i. 1) 0 (newSrv 7 2) (newRequest 0 7 ''1'' 2) = Inr (Some st)
     \<and> 2 \<le> sp_now st \<and> sp_now st \<le> 10002"
  using spin_stops [of "newSrv 7 2" "\<lambda>i. 1" 1 "newRequest 0 7 ''1'' 2" 10002]
  by (simp add: newSrv_def newRequest_def)

end
