(* ===== verification/SpinQueue.thy ===== *)
theory SpinQueue
  imports SpinLoop
begin

text \<open>
  The web server at work: \<open>n\<close> requests in their handlers and \<open>nslots\<close> workers, meeting at
  the unbuffered channel \<open>q\<close> and at each request's unbuffered channel \<open>doneC\<close>. Every atomic
  operation, channel rendezvous and critical section is a step of its own, so every
  interleaving of the source is a run.
\<close>

section \<open>The goroutines\<close>

text \<open>Where a handler stands: before \<open>qlen.Add(1)\<close>, before \<open>qlen.Load()\<close>, sending on \<open>q\<close>, receiving on \<open>doneC\<close>.\<close>

datatype hpc = HIdle | HNew | HCounted | HQueued | HWait | HDone request | HRejected response

text \<open>
  Where a worker stands with request \<open>i\<close>: received, uncounted, latency noted, spun, rate
  noted, queue length noted, marked done (and sending on \<open>doneC\<close>).
\<close>

datatype wpc = WIdle | WGot nat | WCnt nat | WLat nat | WSpun nat | WRated nat | WFin nat | WFlag nat

record sys =
  sv :: srv
  qlen :: int
  reqs :: "nat \<Rightarrow> request"
  hp :: "nat \<Rightarrow> hpc"
  wp :: "nat \<Rightarrow> wpc"
  crashed :: bool

definition workers :: "sys \<Rightarrow> nat" where
  "workers s = nat (nslots (sv s))"

definition q_start :: "int \<Rightarrow> sys \<Rightarrow> bool" where
  "q_start slots s \<longleftrightarrow> (\<exists>replica. sv s = newSrv replica slots) \<and> qlen s = 0
     \<and> hp s = (\<lambda>_. HIdle) \<and> wp s = (\<lambda>_. WIdle) \<and> \<not> crashed s"

inductive q_step :: "(nat \<Rightarrow> string \<Rightarrow> string) \<Rightarrow> nat \<Rightarrow> sys \<Rightarrow> sys \<Rightarrow> bool"
  for query :: "nat \<Rightarrow> string \<Rightarrow> string" and n :: nat where
  q_reject: "\<not> crashed s \<Longrightarrow> i < n \<Longrightarrow> hp s i = HIdle \<Longrightarrow> spinHandler (query i) ms (sv s) = Inl resp \<Longrightarrow>
     q_step query n s (s\<lparr>hp := (hp s)(i := HRejected resp)\<rparr>)"
| q_arrive: "\<not> crashed s \<Longrightarrow> i < n \<Longrightarrow> hp s i = HIdle \<Longrightarrow> spinHandler (query i) ms (sv s) = Inr (r, sv') \<Longrightarrow>
     q_step query n s (s\<lparr>sv := sv', reqs := (reqs s)(i := r), hp := (hp s)(i := HNew)\<rparr>)"
| q_add: "\<not> crashed s \<Longrightarrow> i < n \<Longrightarrow> hp s i = HNew \<Longrightarrow>
     q_step query n s (s\<lparr>qlen := qlen s + 1, hp := (hp s)(i := HCounted)\<rparr>)"
| q_load: "\<not> crashed s \<Longrightarrow> i < n \<Longrightarrow> hp s i = HCounted \<Longrightarrow>
     q_step query n s (s\<lparr>reqs := (reqs s)(i := enqueue_load (qlen s) (reqs s i)), hp := (hp s)(i := HQueued)\<rparr>)"
| q_send: "\<not> crashed s \<Longrightarrow> i < n \<Longrightarrow> hp s i = HQueued \<Longrightarrow> j < workers s \<Longrightarrow> wp s j = WIdle \<Longrightarrow>
     q_step query n s (s\<lparr>hp := (hp s)(i := HWait), wp := (wp s)(j := WGot i)\<rparr>)"
| w_sub: "\<not> crashed s \<Longrightarrow> j < workers s \<Longrightarrow> wp s j = WGot i \<Longrightarrow>
     q_step query n s (s\<lparr>qlen := qlen s - 1, wp := (wp s)(j := WCnt i)\<rparr>)"
| w_lat: "\<not> crashed s \<Longrightarrow> j < workers s \<Longrightarrow> wp s j = WCnt i \<Longrightarrow>
     q_step query n s (s\<lparr>reqs := (reqs s)(i := worker_dequeue now (reqs s i)), wp := (wp s)(j := WLat i)\<rparr>)"
| w_spin: "\<not> crashed s \<Longrightarrow> j < workers s \<Longrightarrow> wp s j = WLat i \<Longrightarrow>
     worker_spin fuel cost rnd (sv s) (reqs s i) = Inr (Some st) \<Longrightarrow>
     q_step query n s (s\<lparr>wp := (wp s)(j := WSpun i)\<rparr>)"
| w_panic: "\<not> crashed s \<Longrightarrow> j < workers s \<Longrightarrow> wp s j = WLat i \<Longrightarrow>
     worker_spin fuel cost rnd (sv s) (reqs s i) = Inl stop \<Longrightarrow>
     q_step query n s (s\<lparr>crashed := True\<rparr>)"
| w_rate: "\<not> crashed s \<Longrightarrow> j < workers s \<Longrightarrow> wp s j = WSpun i \<Longrightarrow> getRequestRate ms (sv s) = (x, sv') \<Longrightarrow>
     q_step query n s (s\<lparr>sv := sv', reqs := (reqs s)(i := (reqs s i)\<lparr>rq_rps := x\<rparr>), wp := (wp s)(j := WRated i)\<rparr>)"
| w_finish: "\<not> crashed s \<Longrightarrow> j < workers s \<Longrightarrow> wp s j = WRated i \<Longrightarrow>
     q_step query n s (s\<lparr>reqs := (reqs s)(i := worker_finish (qlen s) (reqs s i)), wp := (wp s)(j := WFin i)\<rparr>)"
| w_flag: "\<not> crashed s \<Longrightarrow> j < workers s \<Longrightarrow> wp s j = WFin i \<Longrightarrow>
     q_step query n s (s\<lparr>reqs := (reqs s)(i := request_done (reqs s i)), wp := (wp s)(j := WFlag i)\<rparr>)"
| w_done: "\<not> crashed s \<Longrightarrow> j < workers s \<Longrightarrow> wp s j = WFlag i \<Longrightarrow> i < n \<Longrightarrow> hp s i = HWait \<Longrightarrow>
     q_step query n s (s\<lparr>hp := (hp s)(i := HDone (reqs s i)), wp := (wp s)(j := WIdle)\<rparr>)"

section \<open>The invariant\<close>

text \<open>The request a worker holds.\<close>

fun held :: "wpc \<Rightarrow> nat option" where
  "held WIdle = None"
| "held (WGot i) = Some i"
| "held (WCnt i) = Some i"
| "held (WLat i) = Some i"
| "held (WSpun i) = Some i"
| "held (WRated i) = Some i"
| "held (WFin i) = Some i"
| "held (WFlag i) = Some i"

text \<open>Requests counted in \<open>qlen\<close>: entered by their handler, not yet taken out by a worker.\<close>

definition queued :: "sys \<Rightarrow> nat \<Rightarrow> bool" where
  "queued s i \<longleftrightarrow> hp s i \<in> {HCounted, HQueued} \<or> (\<exists>j<workers s. wp s j = WGot i)"

text \<open>What a reply reports: marked done, and queue lengths that make sense among \<open>n\<close> requests.\<close>

definition reply_ok :: "nat \<Rightarrow> request \<Rightarrow> bool" where
  "reply_ok n r \<longleftrightarrow> rq_isDone r \<and> 1 \<le> rq_qlenStart r \<and> rq_qlenStart r \<le> int n
     \<and> 0 \<le> rq_qlenFinish r \<and> rq_qlenFinish r < int n"

definition start_ok :: "nat \<Rightarrow> request \<Rightarrow> bool" where
  "start_ok n r \<longleftrightarrow> 1 \<le> rq_qlenStart r \<and> rq_qlenStart r \<le> int n"

definition finish_ok :: "nat \<Rightarrow> request \<Rightarrow> bool" where
  "finish_ok n r \<longleftrightarrow> 0 \<le> rq_qlenFinish r \<and> rq_qlenFinish r < int n"

text \<open>
  Handlers and workers agree on who holds which request: a pairing of the workers \<open>j < k\<close>
  that hold one with the requests \<open>i < n\<close> whose handler waits.
\<close>

definition pairing :: "nat \<Rightarrow> nat \<Rightarrow> (nat \<Rightarrow> nat option) \<Rightarrow> (nat \<Rightarrow> bool) \<Rightarrow> bool" where
  "pairing k n f waits \<longleftrightarrow>
     (\<forall>j<k. \<forall>i. f j = Some i \<longrightarrow> i < n \<and> waits i)
   \<and> (\<forall>j<k. \<forall>j'<k. f j \<noteq> None \<longrightarrow> f j = f j' \<longrightarrow> j = j')
   \<and> (\<forall>i. waits i \<longrightarrow> (\<exists>j<k. f j = Some i))"

definition matched :: "nat \<Rightarrow> sys \<Rightarrow> bool" where
  "matched n s \<longleftrightarrow> pairing (workers s) n (held \<circ> wp s) (\<lambda>i. hp s i = HWait)"

definition counted :: "nat \<Rightarrow> sys \<Rightarrow> bool" where
  "counted n s \<longleftrightarrow> qlen s = tally id (queued s) n"

text \<open>What is known of a request from where its handler and its worker stand.\<close>

fun handler_knows :: "nat \<Rightarrow> nat \<Rightarrow> hpc \<Rightarrow> request \<Rightarrow> bool" where
  "handler_knows k n HQueued r = start_ok n r"
| "handler_knows k n HWait r = start_ok n r"
| "handler_knows k n (HDone r') r = (reply_ok n r' \<and> 0 < k)"
| "handler_knows k n _ r = True"

fun worker_knows :: "nat \<Rightarrow> wpc \<Rightarrow> (nat \<Rightarrow> request) \<Rightarrow> bool" where
  "worker_knows n (WFin i) rs = finish_ok n (rs i)"
| "worker_knows n (WFlag i) rs = (finish_ok n (rs i) \<and> rq_isDone (rs i))"
| "worker_knows n _ rs = True"

definition filled :: "nat \<Rightarrow> sys \<Rightarrow> bool" where
  "filled n s \<longleftrightarrow> (\<forall>i. handler_knows (workers s) n (hp s i) (reqs s i))
     \<and> (\<forall>j<workers s. worker_knows n (wp s j) (reqs s))"

definition q_inv :: "nat \<Rightarrow> sys \<Rightarrow> bool" where
  "q_inv n s \<longleftrightarrow> matched n s \<and> counted n s \<and> filled n s"

lemma srv_ops_nslots [machine_simps]:
  "spinHandler q ms s = Inr (r, s') \<Longrightarrow> nslots s' = nslots s"
  "getRequestRate ms s = (x, s') \<Longrightarrow> nslots s' = nslots s"
  by (auto simp: spinHandler_def getRequestRate_def updateRequestRate_def maybeClearRequestRateL_def Let_def
      split: if_splits option.splits)

lemma workers_step [simp]: "q_step query n s t \<Longrightarrow> workers t = workers s"
  by (erule q_step.cases) (auto simp: workers_def srv_ops_nslots)

lemma held_simps [machine_simps]:
  "held w = None \<longleftrightarrow> w = WIdle"
  "held w = Some i \<longleftrightarrow> w \<in> {WGot i, WCnt i, WLat i, WSpun i, WRated i, WFin i, WFlag i}"
  by (cases w; auto)+

lemma pairing_add:
  assumes "pairing k n f P" and "i < n" and "\<not> P i" and "j < k" and "f j = None"
  shows "pairing k n (f(j := Some i)) (P(i := True))"
  unfolding pairing_def
proof (intro conjI allI impI)
  fix m assume "(P(i := True)) m"
  show "\<exists>j'<k. (f(j := Some i)) j' = Some m"
  proof (cases "m = i")
    case False
    with \<open>(P(i := True)) m\<close> assms(1) obtain j' where "j' < k" "f j' = Some m"
      by (auto simp: pairing_def)
    with assms(5) show ?thesis by (intro exI [of _ j']) auto
  qed (use assms(4) in auto)
next
  fix j1 j2 assume *: "j1 < k" "j2 < k" "(f(j := Some i)) j1 \<noteq> None" "(f(j := Some i)) j1 = (f(j := Some i)) j2"
  have "f j' \<noteq> Some i" if "j' < k" for j' using assms(1,3) that by (auto simp: pairing_def)
  with * assms(1) show "j1 = j2" unfolding pairing_def by (metis fun_upd_apply)
qed (use assms in \<open>auto simp: pairing_def split: if_splits\<close>)

lemma pairing_del:
  assumes "pairing k n f P" and "j < k" and "f j = Some i"
  shows "pairing k n (f(j := None)) (P(i := False))"
  unfolding pairing_def
proof (intro conjI allI impI)
  fix m assume m: "(P(i := False)) m"
  then obtain j' where "j' < k" "f j' = Some m" "m \<noteq> i"
    using assms(1) by (auto simp: pairing_def split: if_splits)
  with assms(3) show "\<exists>j'<k. (f(j := None)) j' = Some m" by (intro exI [of _ j']) auto
next
  fix j1 i' assume "j1 < k" "(f(j := None)) j1 = Some i'"
  moreover from this assms have "i' \<noteq> i" unfolding pairing_def
    by (metis fun_upd_apply option.distinct(1))
  ultimately show "(P(i := False)) i'" using assms(1) by (auto simp: pairing_def split: if_splits)
qed (use assms in \<open>auto simp: pairing_def split: if_splits\<close>)

text \<open>How the pairing moves when one handler or one worker does.\<close>

lemma waits_upd: "(\<lambda>m. (f(i := h)) m = HWait) = (\<lambda>m. f m = HWait)(i := h = HWait)"
  by auto

lemma held_upd: "held \<circ> f(j := w) = (held \<circ> f)(j := held w)"
  by auto

lemma matched_step:
  assumes "matched n s" and step: "q_step query n s t"
  shows "matched n t"
proof -
  note simps = waits_upd held_upd fun_upd_idem
  have p: "pairing (workers s) n (held \<circ> wp s) (\<lambda>i. hp s i = HWait)"
    using assms(1) by (simp add: matched_def)
  have "pairing (workers s) n (held \<circ> wp t) (\<lambda>i. hp t i = HWait)"
    using step
  proof (cases rule: q_step.cases)
    case (q_send i j)
    with pairing_add [OF p q_send(3) _ q_send(5)] show ?thesis
      by (simp add: simps del: fun_upd_apply)
  next
    case (w_done j i)
    with pairing_del [OF p w_done(3), of i] show ?thesis
      by (simp add: simps del: fun_upd_apply)
  qed (use p in \<open>simp_all add: simps del: fun_upd_apply\<close>)
  with workers_step [OF step] show ?thesis by (simp add: matched_def)
qed

lemma matchedD:
  assumes "matched n s" and "j < workers s" and "held (wp s j) = Some i"
  shows "i < n" and "hp s i = HWait"
    and "\<And>j'. j' < workers s \<Longrightarrow> held (wp s j') = Some i \<Longrightarrow> j' = j"
proof -
  show "\<And>j'. j' < workers s \<Longrightarrow> held (wp s j') = Some i \<Longrightarrow> j' = j"
    using assms unfolding matched_def pairing_def comp_def by (metis option.distinct(1))
qed (use assms in \<open>auto simp: matched_def pairing_def\<close>)

lemma matched_holder:
  assumes "matched n s" and "hp s i = HWait"
  obtains j where "j < workers s" "held (wp s j) = Some i"
  using assms by (auto simp: matched_def pairing_def)

section \<open>The queue length\<close>

lemma tally_flip:
  assumes "i < n" and "Q = P(i := b)"
  shows "tally id Q n = tally id P n - of_bool (P i) + of_bool b"
  using assms by (simp add: tally_upd)

lemma queued_step_worker:
  assumes "matched n s" and "j < workers s" and "held (wp s j) = Some i" and "held w = Some i" and "w \<noteq> WGot i"
  shows "(\<lambda>m. hp s m \<in> {HCounted, HQueued} \<or> (\<exists>j'<workers s. ((wp s)(j := w)) j' = WGot m))
     = (queued s)(i := False)"
proof
  fix m
  note D = matchedD [OF assms(1-3)]
  show "(hp s m \<in> {HCounted, HQueued} \<or> (\<exists>j'<workers s. ((wp s)(j := w)) j' = WGot m)) = ((queued s)(i := False)) m"
  proof (cases "m = i")
    case True
    have "((wp s)(j := w)) j' \<noteq> WGot i" if "j' < workers s" for j'
      using D(3) [OF that] assms(4,5) by (cases "j' = j") auto
    with True D(2) show ?thesis by auto
  next
    case False
    with assms(3,4) show ?thesis by (auto simp: queued_def machine_simps) 
  qed
qed

lemma queued_handler:
  "hp t = (hp s)(i := h) \<Longrightarrow> wp t = wp s \<Longrightarrow> workers t = workers s \<Longrightarrow>
     queued t = (queued s)(i := h \<in> {HCounted, HQueued} \<or> (\<exists>j<workers s. wp s j = WGot i))"
  by (rule ext) (simp add: queued_def)

lemma queued_not_waiting:
  assumes "matched n s" and "hp s i \<noteq> HWait"
  shows "\<not> (\<exists>j<workers s. wp s j = WGot i)"
  using matchedD(2) [OF assms(1)] assms(2) by (metis held.simps(2))

lemma queued_same:
  assumes "hp t = hp s" and "workers t = workers s" and "\<And>m. wp s j \<noteq> WGot m" and "\<And>m. w \<noteq> WGot m"
    and "wp t = (wp s)(j := w)"
  shows "queued t = queued s"
proof -
  have "wp t j' = WGot m \<longleftrightarrow> wp s j' = WGot m" for j' m using assms by auto
  with assms(1,2) show ?thesis by (simp add: queued_def fun_eq_iff)
qed

text \<open>Steps of a handler alone, and of a worker with a request that it has counted out.\<close>

lemma counted_handler:
  assumes "matched n s" and "counted n s" and "i < n" and "hp s i \<noteq> HWait"
    and "hp t = (hp s)(i := h)" and "wp t = wp s" and "workers t = workers s"
    and "qlen t = qlen s - of_bool (hp s i \<in> {HCounted, HQueued}) + of_bool (h \<in> {HCounted, HQueued})"
  shows "counted n t"
  using assms(2,3,8) queued_not_waiting [OF assms(1,4)] queued_handler [OF assms(5-7)]
  by (simp add: counted_def tally_upd queued_def)

lemma counted_same:
  assumes "counted n s" and "qlen t = qlen s" and "queued t = queued s"
  shows "counted n t"
  using assms by (simp add: counted_def)

lemma counted_step:
  assumes "matched n s" and "counted n s" and step: "q_step query n s t"
  shows "counted n t"
proof -
  note w = workers_step [OF step]
  note handler = counted_handler [OF assms(1,2) _ _ _ _ w]
  note worker = counted_same [OF assms(2) _ queued_same [OF _ w]]
  from step show ?thesis
  proof (cases rule: q_step.cases)
    case (q_send i j)
    then have "wp t j' = WGot m \<longleftrightarrow> wp s j' = WGot m \<or> j' = j \<and> m = i" for j' m by auto
    then have "queued t = queued s" using q_send w by (auto simp: queued_def fun_eq_iff)
    with q_send assms(2) show ?thesis by (simp add: counted_def)
  next
    case (w_sub j i)
    then have "queued t = (queued s)(i := False)"
      using queued_step_worker [OF assms(1) w_sub(3), of i "WCnt i"] w by (simp add: queued_def fun_eq_iff)
    moreover have "i < n" "queued s i"
      using matchedD(1) [OF assms(1) w_sub(3), of i] w_sub(3,4) by (auto simp: queued_def)
    ultimately show ?thesis using w_sub assms(2) by (simp add: counted_def tally_upd)
  next
    case (w_panic j i)
    then have "queued t = queued s" using w by (simp add: queued_def fun_eq_iff)
    with assms(2) w_panic show ?thesis by (simp add: counted_def)
  next
    case (w_done j i)
    then have "wp t j' = WGot m \<longleftrightarrow> wp s j' = WGot m" for j' m by auto
    then have "queued t = queued s" using w_done w by (auto simp: queued_def fun_eq_iff)
    with assms(2) w_done show ?thesis by (simp add: counted_def)
  next
    case (q_reject i ms resp)
    then show ?thesis by (intro handler [of i "HRejected resp"]) simp_all
  next
    case (q_arrive i)
    then show ?thesis by (intro handler [of i HNew]) simp_all
  next
    case (q_add i)
    then show ?thesis by (intro handler [of i HCounted]) simp_all
  next
    case (q_load i)
    then show ?thesis by (intro handler [of i HQueued]) simp_all
  next
    case (w_lat j i)
    then show ?thesis by (intro worker [of j "WLat i"]) simp_all
  next
    case (w_spin j i)
    then show ?thesis by (intro worker [of j "WSpun i"]) simp_all
  next
    case (w_rate j i)
    then show ?thesis by (intro worker [of j "WRated i"]) simp_all
  next
    case (w_finish j i)
    then show ?thesis by (intro worker [of j "WFin i"]) simp_all
  next
    case (w_flag j i)
    then show ?thesis by (intro worker [of j "WFlag i"]) simp_all
  qed
qed

lemma counted_bounds:
  assumes "counted n s"
  shows "0 \<le> qlen s" and "qlen s \<le> int n"
    and "i < n \<Longrightarrow> queued s i \<Longrightarrow> 1 \<le> qlen s"
    and "i < n \<Longrightarrow> \<not> queued s i \<Longrightarrow> qlen s < int n"
  using assms tally_le [of id "queued s" n] tally_pos [of i n id "queued s"] tally_less [of i n id "queued s"]
  by (simp_all add: counted_def int_one_le_iff_zero_less)

section \<open>What the requests carry\<close>

lemma worker_knows_frame: "held w \<noteq> Some i \<Longrightarrow> worker_knows n w (rs(i := r)) = worker_knows n w rs"
  by (cases w) auto

lemma filled_handler:
  assumes "filled n s" and "matched n s" and "hp s i \<noteq> HWait" and "handler_knows (workers s) n h r"
    and "hp t = (hp s)(i := h)" and "reqs t = (reqs s)(i := r)" and "wp t = wp s" and "workers t = workers s"
  shows "filled n t"
proof -
  have "held (wp s j) \<noteq> Some i" if "j < workers s" for j
    using matchedD(2) [OF assms(2) that] assms(3) by blast
  with assms show ?thesis by (simp add: filled_def worker_knows_frame)
qed

lemma filled_worker:
  assumes "filled n s" and "matched n s" and "j < workers s" and "held (wp s j) = Some i"
    and "start_ok n (reqs s i) \<Longrightarrow> start_ok n r"
    and "worker_knows n (wp s j) (reqs s) \<Longrightarrow> worker_knows n w ((reqs s)(i := r))"
    and "hp t = hp s" and "reqs t = (reqs s)(i := r)" and "wp t = (wp s)(j := w)" and "workers t = workers s"
  shows "filled n t"
proof -
  note D = matchedD [OF assms(2-4)]
  have "handler_knows (workers s) n (hp s m) (((reqs s)(i := r)) m)" for m
    using assms(1,5) D(2) by (auto simp: filled_def) (metis handler_knows.simps(2))
  moreover have "worker_knows n (((wp s)(j := w)) j') ((reqs s)(i := r))" if "j' < workers s" for j'
  proof (cases "j' = j")
    case False
    with D(3) [OF that] have "held (wp s j') \<noteq> Some i" by blast
    with False that assms(1) show ?thesis by (simp add: worker_knows_frame filled_def)
  qed (use assms(1,3,6) in \<open>simp add: filled_def\<close>)
  ultimately show ?thesis using assms(7-10) by (simp add: filled_def)
qed

lemma filled_step:
  assumes "matched n s" and "counted n s" and "filled n s" and step: "q_step query n s t"
  shows "filled n t"
proof -
  note w = workers_step [OF step]
  note handler = filled_handler [OF assms(3,1) _ _ _ _ _ w]
  note worker = filled_worker [OF assms(3,1) _ _ _ _ _ _ _ w]
  have know: "handler_knows (workers s) n (hp s i) (reqs s i)" for i
    using assms(3) by (simp add: filled_def)
  from step show ?thesis
  proof (cases rule: q_step.cases)
    case (q_reject i)
    then show ?thesis by (intro handler [of i "HRejected resp" "reqs s i" for resp]) auto
  next
    case (q_arrive i ms r)
    then show ?thesis by (intro handler [of i HNew r]) auto
  next
    case (q_add i)
    then show ?thesis by (intro handler [of i HCounted "reqs s i"]) auto
  next
    case (q_load i)
    then have "start_ok n (enqueue_load (qlen s) (reqs s i))"
      using counted_bounds(2) [OF assms(2)] counted_bounds(3) [OF assms(2), of i] by (simp add: start_ok_def enqueue_load_def queued_def)
    with q_load show ?thesis
      by (intro handler [of i HQueued "enqueue_load (qlen s) (reqs s i)"]) auto
  next
    case (q_send i j)
    have "worker_knows n (((wp s)(j := WGot i)) j') (reqs s)" if "j' < workers s" for j'
      using assms(3) that by (simp add: filled_def)
    moreover have "handler_knows (workers s) n (((hp s)(i := HWait)) m) (reqs s m)" for m
      using know [of m] q_send by (cases "m = i") simp_all
    ultimately show ?thesis using q_send w by (simp add: filled_def del: fun_upd_apply)
  next
    case (w_sub j i)
    then show ?thesis by (intro worker [of j i "reqs s i" "WCnt i"]) auto
  next
    case (w_lat j i now)
    then show ?thesis
      by (intro worker [of j i "worker_dequeue now (reqs s i)" "WLat i"])
        (auto simp: start_ok_def worker_dequeue_def)
  next
    case (w_spin j i)
    then show ?thesis by (intro worker [of j i "reqs s i" "WSpun i"]) auto
  next
    case w_panic
    with assms(3) w show ?thesis by (simp add: filled_def)
  next
    case (w_rate j i ms x)
    then show ?thesis
      by (intro worker [of j i "(reqs s i)\<lparr>rq_rps := x\<rparr>" "WRated i"]) (auto simp: start_ok_def)
  next
    case (w_finish j i)
    have "\<not> queued s i"
      using matchedD [OF assms(1) w_finish(3), of i] w_finish(4)
      by (auto simp: queued_def)
    then have "finish_ok n (worker_finish (qlen s) (reqs s i))"
      using counted_bounds(1) [OF assms(2)] counted_bounds(4) [OF assms(2), of i] matchedD(1) [OF assms(1) w_finish(3), of i] w_finish(4)
      by (simp add: finish_ok_def worker_finish_def)
    with w_finish show ?thesis
      by (intro worker [of j i "worker_finish (qlen s) (reqs s i)" "WFin i"])
        (auto simp: start_ok_def worker_finish_def)
  next
    case (w_flag j i)
    then show ?thesis
      by (intro worker [of j i "request_done (reqs s i)" "WFlag i"])
        (auto simp: start_ok_def finish_ok_def request_done_def)
  next
    case (w_done j i)
    have "finish_ok n (reqs s i) \<and> rq_isDone (reqs s i)"
      using assms(3) w_done(3,4) by (auto simp: filled_def)
    with know [of i] w_done have "reply_ok n (reqs s i)"
      by (simp add: reply_ok_def start_ok_def finish_ok_def)
    with w_done have "handler_knows (workers s) n (hp t m) (reqs t m)" for m
      using know [of m] by simp
    moreover have "worker_knows n (wp t j') (reqs t)" if "j' < workers s" for j'
      using assms(3) that w_done by (simp add: filled_def)
    ultimately show ?thesis using w by (simp add: filled_def)
  qed
qed

section \<open>The machine\<close>

interpretation spq: machine_invariant "q_start slots" "q_step query n" "q_inv n"
proof
  fix s assume "q_start slots s"
  then show "q_inv n s"
    by (auto simp: q_start_def q_inv_def matched_def pairing_def counted_def filled_def queued_def tally_zero_iff)
qed (auto simp: q_inv_def intro: matched_step counted_step filled_step)

text \<open>Servers with two or more slots also never panic.\<close>

definition q_live :: "nat \<Rightarrow> sys \<Rightarrow> bool" where
  "q_live n s \<longleftrightarrow> q_inv n s \<and> 2 \<le> nslots (sv s) \<and> \<not> crashed s"

fun h_weight :: "hpc \<Rightarrow> nat" where
  "h_weight HIdle = 11"
| "h_weight HNew = 10"
| "h_weight HCounted = 9"
| "h_weight HQueued = 8"
| "h_weight _ = 0"

fun w_weight :: "wpc \<Rightarrow> nat" where
  "w_weight WIdle = 0"
| "w_weight (WGot i) = 7"
| "w_weight (WCnt i) = 6"
| "w_weight (WLat i) = 5"
| "w_weight (WSpun i) = 4"
| "w_weight (WRated i) = 3"
| "w_weight (WFin i) = 2"
| "w_weight (WFlag i) = 1"

definition q_budget :: "nat \<Rightarrow> sys \<Rightarrow> nat" where
  "q_budget n s = (\<Sum>i<n. h_weight (hp s i)) + (\<Sum>j<workers s. w_weight (wp s j))"

definition settled :: "hpc \<Rightarrow> bool" where
  "settled h \<longleftrightarrow> (\<exists>r. h = HDone r) \<or> (\<exists>resp. h = HRejected resp)"

definition q_goal :: "nat \<Rightarrow> sys \<Rightarrow> bool" where
  "q_goal n s \<longleftrightarrow> (\<forall>i<n. settled (hp s i))"

lemma worker_spin_no_panic: "2 \<le> nslots s \<Longrightarrow> worker_spin fuel cost rnd s rq \<noteq> Inl stop"
  using worker_spin_starts [of s fuel cost rnd rq] by auto

lemma q_live_step:
  assumes "q_live n s" and "q_step query n s t"
  shows "q_live n t"
proof -
  have "q_inv n t" using assms spq.inv_step by (auto simp: q_live_def)
  moreover from assms(2) have "2 \<le> nslots (sv t) \<and> \<not> crashed t"
    by cases (use assms(1) in \<open>auto simp: q_live_def srv_ops_nslots worker_spin_no_panic\<close>)
  ultimately show ?thesis by (simp add: q_live_def)
qed

lemma q_budget_handler:
  assumes "hp t = (hp s)(i := h)" and "wp t = wp s" and "workers t = workers s" and "i < n"
    and "h_weight h < h_weight (hp s i)"
  shows "q_budget n t < q_budget n s"
  using sum_upd [OF assms(4), of h_weight "hp s" h] assms by (simp add: q_budget_def del: fun_upd_apply)

lemma q_budget_worker:
  assumes "wp t = (wp s)(j := w)" and "hp t = hp s" and "workers t = workers s" and "j < workers s"
    and "w_weight w < w_weight (wp s j)"
  shows "q_budget n t < q_budget n s"
  using sum_upd [OF assms(4), of w_weight "wp s" w] assms by (simp add: q_budget_def del: fun_upd_apply)

lemma q_budget_step:
  assumes "q_live n s" and step: "q_step query n s t"
  shows "q_budget n t < q_budget n s"
proof -
  note w = workers_step [OF step]
  from step show ?thesis
  proof (cases rule: q_step.cases)
    case (q_send i j)
    then show ?thesis
      using sum_upd [OF q_send(3), of h_weight "hp s" HWait] sum_upd [OF q_send(5), of w_weight "wp s" "WGot i"] w
      by (simp add: q_budget_def del: fun_upd_apply)
  next
    case (w_done j i)
    then show ?thesis
      using sum_upd [OF w_done(5), of h_weight "hp s" "HDone (reqs s i)"]
        sum_upd [OF w_done(3), of w_weight "wp s" WIdle] w
      by (simp add: q_budget_def del: fun_upd_apply)
  next
    case w_panic
    with assms(1) show ?thesis by (simp add: q_live_def worker_spin_no_panic)
  qed (use w in \<open>auto intro: q_budget_handler q_budget_worker\<close>)
qed

text \<open>A worker with a request can go on, and a request that is not settled makes somebody go on, without another request arriving.\<close>

definition arrives_only :: "nat set \<Rightarrow> sys \<Rightarrow> sys \<Rightarrow> bool" where
  "arrives_only A s t \<longleftrightarrow> (\<forall>i. hp s i = HIdle \<longrightarrow> hp t i = HIdle \<or> i \<in> A)"

lemma busy_worker_steps:
  assumes "q_live n s" and "j < workers s" and "wp s j \<noteq> WIdle"
  shows "\<exists>t. q_step query n s t \<and> arrives_only {} s t"
proof -
  have c: "\<not> crashed s" and m: "matched n s" using assms(1) by (simp_all add: q_live_def q_inv_def)
  show ?thesis
  proof (cases "wp s j")
    case (WLat i)
    obtain fuel st where "worker_spin fuel (\<lambda>_. 1) 0 (sv s) (reqs s i) = Inr (Some st)"
      using worker_spin_comes_back [of "sv s" 0 "reqs s i"] assms(1) by (auto simp: q_live_def)
    from w_spin [OF c assms(2) WLat this] show ?thesis by (fastforce simp: arrives_only_def)
  next
    case (WSpun i)
    obtain x sv' where "getRequestRate 0 (sv s) = (x, sv')" by fastforce
    from w_rate [OF c assms(2) WSpun this] show ?thesis by (fastforce simp: arrives_only_def)
  next
    case (WFlag i)
    then have "i < n" "hp s i = HWait" using matchedD(1,2) [OF m assms(2), of i] by auto
    from w_done [OF c assms(2) WFlag this] \<open>hp s i = HWait\<close> show ?thesis by (fastforce simp: arrives_only_def)
  qed (use c assms in \<open>fastforce simp: arrives_only_def intro: q_step.intros\<close>)+
qed

lemma pending_steps:
  assumes "q_live n s" and i: "i < n" "\<not> settled (hp s i)"
  shows "\<exists>t. q_step query n s t \<and> arrives_only {i} s t"
proof -
  have c: "\<not> crashed s" and m: "matched n s" and k: "0 < workers s"
    using assms(1) by (simp_all add: q_live_def q_inv_def workers_def)
  have busy: ?thesis if "j < workers s" "wp s j \<noteq> WIdle" for j
    using busy_worker_steps [OF assms(1) that] by (force simp: arrives_only_def)
  show ?thesis
  proof (cases "hp s i")
    case HIdle
    show ?thesis
    proof (cases "spinHandler (query i) 0 (sv s)")
      case (Inl resp)
      from q_reject [where query = query, OF c i(1) HIdle this] show ?thesis by (fastforce simp: arrives_only_def)
    next
      case (Inr x)
      then obtain r sv' where "spinHandler (query i) 0 (sv s) = Inr (r, sv')" by (cases x) auto
      from q_arrive [where query = query, OF c i(1) HIdle this] show ?thesis by (fastforce simp: arrives_only_def)
    qed
  next
    case HNew
    from q_add [OF c i(1) this] HNew show ?thesis by (fastforce simp: arrives_only_def)
  next
    case HCounted
    from q_load [OF c i(1) this] HCounted show ?thesis by (fastforce simp: arrives_only_def)
  next
    case HQueued
    show ?thesis
    proof (cases "wp s 0 = WIdle")
      case True
      from q_send [OF c i(1) HQueued k this] HQueued show ?thesis by (fastforce simp: arrives_only_def)
    qed (use busy [OF k] in blast)
  next
    case HWait
    from matched_holder [OF m this] obtain j where "j < workers s" "held (wp s j) = Some i" .
    with busy [of j] show ?thesis by (cases "wp s j") auto
  qed (use i in \<open>auto simp: settled_def\<close>)
qed

lemma q_not_stuck: "q_live n s \<Longrightarrow> \<not> q_goal n s \<Longrightarrow> \<exists>t. q_step query n s t"
  using pending_steps by (fastforce simp: q_goal_def)

interpretation spl: machine_progress "\<lambda>s. q_start slots s \<and> 2 \<le> slots" "q_step query n" "q_live n"
  "q_budget n" "q_goal n"
proof
  fix s assume "q_start slots s \<and> 2 \<le> slots"
  then show "q_live n s"
    using spq.inv_start by (auto simp: q_live_def q_start_def newSrv_def)
qed (auto intro: q_live_step q_budget_step q_not_stuck)

lemma q_budget_start: "q_start slots s \<Longrightarrow> q_budget n s = 11 * n"
  by (simp add: q_budget_def q_start_def)

section \<open>A run\<close>

text \<open>A query for a second and a half, and a fresh server.\<close>

definition demo_query :: "nat \<Rightarrow> string \<Rightarrow> string" where
  "demo_query i k = (if k = ''id'' then ''1'' else if k = ''dur'' then ''1.5s'' else [])"

definition demo_start :: "int \<Rightarrow> sys" where
  "demo_start slots = \<lparr>sv = newSrv 7 slots, qlen = 0, reqs = (\<lambda>_. newRequest 0 7 ''1'' 2), hp = (\<lambda>_. HIdle),
     wp = (\<lambda>_. WIdle), crashed = False\<rparr>"

lemma demo_start: "q_start slots (demo_start slots)"
  by (auto simp: q_start_def demo_start_def)

lemma demo_accepted: "\<exists>r s'. spinHandler (demo_query i) ms s = Inr (r, s')"
  by (simp add: spinHandler_def demo_query_def Let_def ParseDuration_examples(1))

lemma demo_counted:
  assumes "0 < n"
  shows "\<exists>s. reach (q_start slots) (q_step demo_query n) s \<and> hp s 0 = HCounted \<and> qlen s = 1"
proof -
  let ?s = "demo_start slots"
  obtain r sv' where r: "spinHandler (demo_query 0) 0 (sv ?s) = Inr (r, sv')"
    using demo_accepted by blast
  let ?t = "?s\<lparr>sv := sv', reqs := (reqs ?s)(0 := r), hp := (hp ?s)(0 := HNew)\<rparr>"
  let ?u = "?t\<lparr>qlen := qlen ?t + 1, hp := (hp ?t)(0 := HCounted)\<rparr>"
  have "q_step demo_query n ?s ?t"
    using assms r by (intro q_arrive) (simp_all add: demo_start_def)
  moreover have "q_step demo_query n ?t ?u"
    using assms by (intro q_add) (simp_all add: demo_start_def)
  moreover have "reach (q_start slots) (q_step demo_query n) ?s"
    by (rule reach_start) (rule demo_start)
  ultimately have "reach (q_start slots) (q_step demo_query n) ?u"
    by (meson reach_step)
  moreover have "hp ?u 0 = HCounted \<and> qlen ?u = 1" by (simp add: demo_start_def)
  ultimately show ?thesis by blast
qed

lemma demo_not_rejected:
  "(q_step demo_query n)\<^sup>*\<^sup>* s t \<Longrightarrow> \<forall>resp. hp s i \<noteq> HRejected resp \<Longrightarrow> hp t i \<noteq> HRejected resp"
proof (induction rule: rtranclp_induct)
  case (step t u)
  then have t: "hp t i \<noteq> HRejected resp" by simp
  from step(2) show ?case
  proof (cases rule: q_step.cases)
    case (q_reject m ms resp')
    with demo_accepted [of m ms "sv t"] show ?thesis by auto
  qed (use t in auto)
qed simp

lemma demo_done:
  "\<exists>s r. reach (q_start 2) (q_step demo_query 1) s \<and> hp s 0 = HDone r"
proof -
  have "q_live 1 (demo_start 2)" using spl.inv_start [of 2] demo_start [of 2] by auto
  from spl.reaches_goal [OF this, of demo_query] obtain t where
    t: "(q_step demo_query 1)\<^sup>*\<^sup>* (demo_start 2) t" "settled (hp t 0)"
    by (auto simp: q_goal_def)
  have "hp t 0 \<noteq> HRejected resp" for resp
    by (rule demo_not_rejected [OF t(1)]) (simp add: demo_start_def)
  with t(2) obtain r where "hp t 0 = HDone r" by (auto simp: settled_def)
  moreover have "reach (q_start 2) (q_step demo_query 1) (demo_start 2)"
    by (rule reach_start) (rule demo_start)
  ultimately show ?thesis using reach_trans [OF t(1)] by blast
qed

section \<open>Properties\<close>

text \<open>
  The atomic queue length \<open>qlen\<close> is exact in every state of every interleaving: it is the
  number of requests that have been counted in by their handler and not yet counted out by
  the worker that received them, so it is never negative and never above the number of
  requests.
\<close>

theorem qlen_exact:
  assumes "reach (q_start slots) (q_step query n) s"
  shows "qlen s = tally id (queued s) n \<and> 0 \<le> qlen s \<and> qlen s \<le> int n"
  using spq.reach_inv [OF assms] counted_bounds(1,2) [of n s] by (auto simp: q_inv_def counted_def)

theorem qlen_exact_witness:
  "\<exists>s :: sys. hp s 0 = HCounted \<and> qlen s = 1 \<and> tally id (queued s) 3 = 1"
proof -
  obtain s where "reach (q_start 2) (q_step demo_query 3) s" "hp s 0 = HCounted" "qlen s = 1"
    using demo_counted [of 3 2] by auto
  with qlen_exact [OF this(1)] show ?thesis by metis
qed

text \<open>
  Every reply is for a finished request: it is marked done, the queue length noted on
  arrival counts at least the request itself and at most all requests, and the one noted at
  the end is at least zero and leaves out the request itself.
\<close>

theorem replies_ok:
  assumes "reach (q_start slots) (q_step query n) s" and "hp s i = HDone r"
  shows "rq_isDone r \<and> 1 \<le> rq_qlenStart r \<and> rq_qlenStart r \<le> int n
    \<and> 0 \<le> rq_qlenFinish r \<and> rq_qlenFinish r < int n"
proof -
  have "handler_knows (workers s) n (hp s i) (reqs s i)"
    using spq.reach_inv [OF assms(1)] by (simp add: q_inv_def filled_def)
  with assms(2) show ?thesis by (simp add: reply_ok_def)
qed

theorem replies_ok_witness:
  "\<exists>(s :: sys) r. hp s 0 = HDone r \<and> rq_isDone r \<and> rq_qlenStart r = 1 \<and> rq_qlenFinish r = 0"
proof -
  obtain s r where s: "reach (q_start 2) (q_step demo_query 1) s" "hp s 0 = HDone r"
    using demo_done by blast
  have "hp s 0 = HDone r \<and> rq_isDone r \<and> rq_qlenStart r = 1 \<and> rq_qlenFinish r = 0"
    using replies_ok [OF s] s(2) by simp
  then show ?thesis by blast
qed

text \<open>
  C5. No lost wake-up and no deadlock: a server with at least two slots settles every request.
  A run over \<open>n\<close> requests has at most \<open>11 n\<close> steps, from every state it can be continued until
  each request has its reply or its rejection, and a run that cannot be continued has
  settled them all.
\<close>

theorem spin_server_settles:
  assumes "q_start slots s" and "2 \<le> slots"
  shows "(\<forall>ts. run_from (q_step query n) s ts \<longrightarrow> length ts \<le> 11 * n)
    \<and> (\<forall>t. (q_step query n)\<^sup>*\<^sup>* s t \<longrightarrow> (\<exists>u. (q_step query n)\<^sup>*\<^sup>* t u \<and> (\<forall>i<n. settled (hp u i))))
    \<and> (\<forall>t. (q_step query n)\<^sup>*\<^sup>* s t \<longrightarrow> (\<nexists>u. q_step query n t u) \<longrightarrow> (\<forall>i<n. settled (hp t i)))"
proof -
  have live: "q_live n s" using assms spl.inv_start by blast
  note at = spl.steps_inv [OF _ live]
  show ?thesis
    using spl.run_bounded [OF live, of query] spl.reaches_goal [OF at]
      spl.maximal_run_at_goal [OF at] q_budget_start [OF assms(1), of n]
    unfolding q_goal_def by metis
qed

theorem spin_server_settles_witness:
  "\<exists>u. (q_step demo_query 3)\<^sup>*\<^sup>* (demo_start 2) u \<and> settled (hp u 0) \<and> settled (hp u 1) \<and> settled (hp u 2)"
proof -
  obtain u where "(q_step demo_query 3)\<^sup>*\<^sup>* (demo_start 2) u" "\<forall>i<3. settled (hp u i)"
    using spin_server_settles [OF demo_start, of 2 demo_query 3] by auto
  then show ?thesis by (intro exI [of _ u]) simp
qed

text \<open>
  A server started with no slots, or a negative number, accepts requests and answers
  none of them, since nothing ever receives from the queue.
\<close>

theorem no_slots_no_replies:
  assumes "reach (q_start slots) (q_step query n) s" and "slots \<le> 0"
  shows "hp s i \<noteq> HDone r \<and> hp s i \<noteq> HWait"
proof -
  have "workers s = 0"
    using assms
  proof (induction rule: reach.induct)
    case (reach_start s)
    then show ?case by (auto simp: q_start_def workers_def newSrv_def)
  qed simp
  moreover have "handler_knows (workers s) n (hp s i) (reqs s i)" and "matched n s"
    using spq.reach_inv [OF assms(1)] by (simp_all add: q_inv_def filled_def)
  ultimately show ?thesis by (auto elim: matched_holder)
qed

theorem no_slots_no_replies_witness:
  "\<exists>s :: sys. hp s 0 = HCounted \<and> hp s 1 \<noteq> HWait \<and> hp s 2 \<noteq> HWait"
proof -
  obtain s where "reach (q_start 0) (q_step demo_query 3) s" "hp s 0 = HCounted"
    using demo_counted [of 3 0] by auto
  then have "hp s 0 = HCounted \<and> hp s 1 \<noteq> HWait \<and> hp s 2 \<noteq> HWait"
    using no_slots_no_replies [of 0 demo_query 3 s] by simp
  then show ?thesis by blast
qed

end
