(* ===== verification/Cluster.thy ===== *)
theory Cluster
  imports LBAbs SpinQueue
begin

text \<open>
  The load balancer with the queue-length policy in front of the web servers: each request is
  counted for the pod that is picked, travels to it, goes through the pod's handler and
  workers, and is counted out when the reply is back. The two machines are those of \<open>LBMachine\<close> and \<open>SpinQueue\<close>;
  what is added is the way between them. \<open>up\<close> is the set of addresses at which a web server
  answers; a request to any other address fails.
\<close>

section \<open>The system\<close>

text \<open>Where a request stands: not yet picked for, sent to a pod, back from it, counted out.\<close>

datatype cpc = CNew | CSent string | CBack string | CEnd string

text \<open>\<open>refreshes\<close> bounds the number of further turns of \<open>monitorPods\<close>, which has no end of its own.\<close>

record cluster =
  front :: LB
  pod :: "string \<Rightarrow> sys"
  cp :: "nat \<Rightarrow> cpc"
  refreshes :: nat

definition c_start :: "int \<Rightarrow> nat \<Rightarrow> cluster \<Rightarrow> bool" where
  "c_start slots k s \<longleftrightarrow> front s = newLB LB_ClntSideQLen \<and> (\<forall>a. q_start slots (pod s a))
     \<and> cp s = (\<lambda>_. CNew) \<and> refreshes s = k"

text \<open>A pod moves by itself, except that only requests that were sent to it arrive.\<close>

inductive c_step :: "(nat \<Rightarrow> string \<Rightarrow> string) \<Rightarrow> string set \<Rightarrow> nat \<Rightarrow> cluster \<Rightarrow> cluster \<Rightarrow> bool"
  for query :: "nat \<Rightarrow> string \<Rightarrow> string" and up :: "string set" and n :: nat where
  c_pick: "i < n \<Longrightarrow> cp s i = CNew \<Longrightarrow> covers od (outstandingReqs (front s)) \<Longrightarrow>
     getBackendPodAddr od (front s) = Inr (a, lb') \<Longrightarrow>
     c_step query up n s (s\<lparr>front := lb', cp := (cp s)(i := CSent a)\<rparr>)"
| c_pod: "a \<in> up \<Longrightarrow> q_step query n (pod s a) p \<Longrightarrow> arrives_only {i. i < n \<and> cp s i = CSent a} (pod s a) p \<Longrightarrow>
     c_step query up n s (s\<lparr>pod := (pod s)(a := p)\<rparr>)"
| c_reply: "i < n \<Longrightarrow> cp s i = CSent a \<Longrightarrow> a \<in> up \<Longrightarrow> settled (hp (pod s a) i) \<Longrightarrow>
     c_step query up n s (s\<lparr>cp := (cp s)(i := CBack a)\<rparr>)"
| c_fail: "i < n \<Longrightarrow> cp s i = CSent a \<Longrightarrow> a \<notin> up \<Longrightarrow>
     c_step query up n s (s\<lparr>cp := (cp s)(i := CBack a)\<rparr>)"
| c_put: "i < n \<Longrightarrow> cp s i = CBack a \<Longrightarrow>
     c_step query up n s (s\<lparr>front := putBackendPodAddr a (front s), cp := (cp s)(i := CEnd a)\<rparr>)"
| c_refresh: "refreshes s = Suc k \<Longrightarrow> distinct od \<Longrightarrow> set (concat eps) \<subseteq> set od \<Longrightarrow>
     monitorPods od (Inr eps) (front s) = Inr lb' \<Longrightarrow>
     \<forall>ip\<in>set (new_pods od eps (front s)). outstandingReqs (front s) (pod_addr ip) = None \<Longrightarrow>
     c_step query up n s (s\<lparr>front := lb', refreshes := k\<rparr>)"

section \<open>The load balancer's view\<close>

fun in_flight :: "cpc \<Rightarrow> string multiset" where
  "in_flight (CSent a) = {#a#}"
| "in_flight (CBack a) = {#a#}"
| "in_flight _ = {#}"

definition flights :: "nat \<Rightarrow> (nat \<Rightarrow> cpc) \<Rightarrow> string multiset" where
  "flights n f = (\<Sum>i<n. in_flight (f i))"

definition lb_of :: "nat \<Rightarrow> cluster \<Rightarrow> lbsys" where
  "lb_of n s = \<lparr>bal = front s, inflight = flights n (cp s)\<rparr>"

lemma flights_upd:
  assumes "i < n"
  shows "flights n (f(i := x)) + in_flight (f i) = flights n f + in_flight x"
proof -
  have split: "flights n g = in_flight (g i) + (\<Sum>m\<in>{..<n} - {i}. in_flight (g m))" for g
    using assms by (simp add: flights_def sum.remove [of "{..<n}" i])
  have "(\<Sum>m\<in>{..<n} - {i}. in_flight ((f(i := x)) m)) = (\<Sum>m\<in>{..<n} - {i}. in_flight (f m))"
    by (intro sum.cong) auto
  with split [of f] split [of "f(i := x)"] show ?thesis by (simp add: union_ac)
qed

lemma flights_eq: "i < n \<Longrightarrow> in_flight (f i) = {#} \<Longrightarrow> flights n (f(i := x)) = flights n f + in_flight x"
  using flights_upd [of i n f x] by simp

lemma flights_same: "i < n \<Longrightarrow> in_flight (f i) = in_flight x \<Longrightarrow> flights n (f(i := x)) = flights n f"
  using flights_upd [of i n f x] by simp

lemma flights_less: "i < n \<Longrightarrow> in_flight (f i) = {#a#} \<Longrightarrow> in_flight x = {#} \<Longrightarrow> flights n (f(i := x)) = flights n f - {#a#}"
  using flights_upd [of i n f x] by (metis add_diff_cancel_right' empty_neutral(2))

lemma count_flights: "count (flights n f) a = card {i. i < n \<and> in_flight (f i) = {#a#}}"
proof -
  have "count (in_flight c) a = of_bool (in_flight c = {#a#})" for c by (cases c) auto
  then have "count (flights n f) a = (\<Sum>i<n. of_bool (in_flight (f i) = {#a#}))"
    by (simp add: flights_def count_sum)
  also have "\<dots> = card {i \<in> {..<n}. in_flight (f i) = {#a#}}"
    by (simp add: sum.inter_filter [symmetric] of_bool_def)
  finally show ?thesis by (simp add: lessThan_def)
qed

lemma flights_member: "i < n \<Longrightarrow> in_flight (f i) = {#a#} \<Longrightarrow> a \<in># flights n f"
proof -
  assume "i < n" "in_flight (f i) = {#a#}"
  then have "i \<in> {i. i < n \<and> in_flight (f i) = {#a#}}" by simp
  moreover have "finite {i. i < n \<and> in_flight (f i) = {#a#}}" by simp
  ultimately have "0 < card {i. i < n \<and> in_flight (f i) = {#a#}}" by (metis card_gt_0_iff empty_iff)
  then show ?thesis by (simp add: count_flights [symmetric])
qed

text \<open>Every step is one of the load balancer's, or one that it does not see.\<close>

lemma lb_of_step:
  assumes "c_step query up n s s'"
  shows "lb_of n s' = lb_of n s \<or> lb_step False (lb_of n s) (lb_of n s')"
  using assms
proof cases
  case (c_pick i od a lb')
  then have "lb_of n s' = (lb_of n s)\<lparr>bal := lb', inflight := add_mset a (inflight (lb_of n s))\<rparr>"
    by (simp add: lb_of_def flights_eq del: fun_upd_apply)
  with c_pick lb_pick [of od "lb_of n s" a lb'] show ?thesis by (simp add: lb_of_def)
next
  case (c_put i a)
  then have "lb_of n s' = (lb_of n s)\<lparr>bal := putBackendPodAddr a (front s), inflight := inflight (lb_of n s) - {#a#}\<rparr>"
    by (simp add: lb_of_def flights_less del: fun_upd_apply)
  moreover have "a \<in># flights n (cp s)" using c_put flights_member [of i n "cp s" a] by simp
  ultimately show ?thesis using lb_finish [of a "lb_of n s" False] by (simp add: lb_of_def)
next
  case (c_refresh k od eps lb')
  then have "lb_of n s' = (lb_of n s)\<lparr>bal := lb'\<rparr>" by (simp add: lb_of_def)
  with c_refresh lb_refresh [of od eps "lb_of n s" lb' False] show ?thesis by (simp add: lb_of_def)
qed (simp_all add: lb_of_def flights_same del: fun_upd_apply)

section \<open>The invariant\<close>

text \<open>
  The load balancer's counters are exact, every pod is alive, a pod knows only requests that
  were sent to it, and what is back from a pod that is up has been settled there.
\<close>

fun sent_to :: "cpc \<Rightarrow> string option" where
  "sent_to CNew = None"
| "sent_to (CSent a) = Some a"
| "sent_to (CBack a) = Some a"
| "sent_to (CEnd a) = Some a"

definition arrived_ok :: "nat \<Rightarrow> string set \<Rightarrow> cluster \<Rightarrow> bool" where
  "arrived_ok n up s \<longleftrightarrow> (\<forall>i<n. \<forall>a. hp (pod s a) i \<noteq> HIdle \<longrightarrow> sent_to (cp s i) = Some a)
     \<and> (\<forall>i<n. \<forall>a\<in>up. cp s i = CBack a \<or> cp s i = CEnd a \<longrightarrow> settled (hp (pod s a) i))"

definition c_inv :: "string set \<Rightarrow> nat \<Rightarrow> cluster \<Rightarrow> bool" where
  "c_inv up n s \<longleftrightarrow> lb_exact (lb_of n s) \<and> finite (dom (outstandingReqs (front s)))
     \<and> (\<forall>a. q_live n (pod s a)) \<and> arrived_ok n up s"

lemma settled_step: "q_step query n p p' \<Longrightarrow> settled (hp p i) \<Longrightarrow> hp p' i = hp p i"
  by (induction rule: q_step.induct) (auto simp: settled_def)

lemma arrived_ok_step:
  assumes ok: "arrived_ok n up s" and "c_step query up n s s'"
  shows "arrived_ok n up s'"
  using assms(2)
proof cases
  case (c_pick i od a lb')
  then have "hp (pod s b) i = HIdle" for b using ok by (fastforce simp: arrived_ok_def)
  with c_pick ok show ?thesis by (auto simp: arrived_ok_def)
next
  case (c_pod a p)
  have "sent_to (cp s i) = Some b" if "i < n" "hp (((pod s)(a := p)) b) i \<noteq> HIdle" for i b
  proof (cases "hp (pod s b) i = HIdle")
    case True
    with that have "b = a" "hp p i \<noteq> HIdle" by (auto split: if_splits)
    with True c_pod(4) show ?thesis by (auto simp: arrives_only_def)
  next
    case False
    with ok that(1) show ?thesis by (simp add: arrived_ok_def)
  qed
  moreover have "settled (hp (((pod s)(a := p)) b) i)" if "i < n" "b \<in> up" "cp s i = CBack b \<or> cp s i = CEnd b" for i b
  proof -
    have "settled (hp (pod s b) i)" using ok that unfolding arrived_ok_def by blast
    with settled_step [OF c_pod(3), of i] show ?thesis by auto
  qed
  ultimately show ?thesis using c_pod(1) by (simp add: arrived_ok_def del: fun_upd_apply)
next
  case (c_put i a)
  with ok show ?thesis by (fastforce simp: arrived_ok_def)
qed (use ok in \<open>auto simp: arrived_ok_def\<close>)

lemma finite_dom_step:
  assumes "lb_exact (lb_of n s)" and "finite (dom (outstandingReqs (front s)))" and "c_step query up n s s'"
  shows "finite (dom (outstandingReqs (front s')))"
  using assms(3)
proof cases
  case (c_pick i od a lb')
  with assms(1) have "getBackendPodAddrClntSideQLen od (front s) = (a, lb')"
    by (simp add: lb_exact_def lb_of_def getBackendPodAddr_def)
  then have "lb' = (front s)\<lparr>outstandingReqs := LB.map_add (outstandingReqs (front s)) a 1\<rparr>"
    by (auto simp: getBackendPodAddrClntSideQLen_def Let_def)
  with c_pick assms(2) show ?thesis by simp
next
  case (c_put i a)
  with assms(2) show ?thesis by (simp add: putBackendPodAddr_def)
next
  case (c_refresh k od eps lb')
  then have "lb' = refreshed od eps (front s)"
    using assms(1) by (intro monitorPods_Inr) (simp_all add: lb_exact_def lb_of_def)
  with c_refresh assms(2) show ?thesis by (simp add: dom_refreshed)
qed (use assms(2) in simp_all)

lemma c_inv_start: "c_start slots k s \<Longrightarrow> 2 \<le> slots \<Longrightarrow> c_inv up n s"
proof -
  assume s: "c_start slots k s" "2 \<le> slots"
  then have "lb_of n s = \<lparr>bal = newLB LB_ClntSideQLen, inflight = {#}\<rparr>"
    by (simp add: c_start_def lb_of_def flights_def)
  moreover have "q_live n (pod s a)" for a using s spl.inv_start by (auto simp: c_start_def)
  ultimately show ?thesis
    using s lbx.inv_start [of "lb_of n s"]
    by (auto simp: c_inv_def lb_start_def c_start_def newLB_def arrived_ok_def q_start_def)
qed

lemma c_inv_step:
  assumes inv: "c_inv up n s" and step: "c_step query up n s s'"
  shows "c_inv up n s'"
proof -
  have "lb_exact (lb_of n s')"
    using lb_of_step [OF step] lbx.inv_step inv by (auto simp: c_inv_def)
  moreover have "q_live n (pod s' a)" for a
    using step inv by cases (auto simp: c_inv_def intro: q_live_step)
  ultimately show ?thesis
    using inv arrived_ok_step [OF _ step] finite_dom_step [OF _ _ step] by (simp add: c_inv_def)
qed

text \<open>The front of the system refines the load balancer, and each pod the web server.\<close>

interpretation clb: machine_refinement "\<lambda>s. c_start slots k s \<and> 2 \<le> slots" "c_step query up n" "c_inv up n"
  "lb_start LB_ClntSideQLen" "lb_step False" "lb_of n"
proof
  show "c_start slots k s \<and> 2 \<le> slots \<Longrightarrow> c_inv up n s" for s using c_inv_start by blast
  show "c_inv up n s \<Longrightarrow> c_step query up n s s' \<Longrightarrow> c_inv up n s'" for s s' by (rule c_inv_step)
  show "c_start slots k s \<and> 2 \<le> slots \<Longrightarrow> lb_start LB_ClntSideQLen (lb_of n s)" for s
    by (simp add: c_start_def lb_of_def lb_start_def flights_def)
  show "c_step query up n s s' \<Longrightarrow> lb_of n s' \<noteq> lb_of n s \<Longrightarrow> lb_step False (lb_of n s) (lb_of n s')" for s s'
    using lb_of_step by blast
qed

interpretation cpod: machine_refinement "\<lambda>s. c_start slots k s \<and> 2 \<le> slots" "c_step query up n" "c_inv up n"
  "q_start slots" "q_step query n" "\<lambda>s. pod s a"
proof
  show "c_start slots k s \<and> 2 \<le> slots \<Longrightarrow> q_start slots (pod s a)" for s by (simp add: c_start_def)
  show "c_step query up n s s' \<Longrightarrow> pod s' a \<noteq> pod s a \<Longrightarrow> q_step query n (pod s a) (pod s' a)" for s s'
    by (induction rule: c_step.induct) (auto split: if_splits)
qed

section \<open>Progress\<close>














section \<open>Queues at the front and in the pods\<close>









section \<open>Properties\<close>


definition demo_cluster :: cluster where
  "demo_cluster = \<lparr>front = newLB LB_ClntSideQLen, pod = (\<lambda>_. demo_start 2), cp = (\<lambda>_. CNew), refreshes = 1\<rparr>"

lemma demo_cluster: "c_start 2 1 demo_cluster"
  using demo_start by (simp add: c_start_def demo_cluster_def)



text \<open>A run in which the first request has been sent to the only pod.\<close>

definition demo_front :: LB where
  "demo_front = \<lparr>t = LB_ClntSideQLen, podIPs = [''A''], outstandingReqs = [''A:8080'' \<mapsto> 0], idx = 0\<rparr>"

definition demo_sent :: cluster where
  "demo_sent = demo_cluster\<lparr>front := demo_front\<lparr>outstandingReqs := [''A:8080'' \<mapsto> 1]\<rparr>,
     cp := (\<lambda>_. CNew)(0 := CSent ''A:8080''), refreshes := 0\<rparr>"

lemma demo_picks:
  "getBackendPodAddr [''A:8080''] demo_front = Inr (''A:8080'', demo_front\<lparr>outstandingReqs := [''A:8080'' \<mapsto> 1]\<rparr>)"
  "getBackendPodAddr [''A:8080''] (front demo_sent) = Inr (''A:8080'', demo_front\<lparr>outstandingReqs := [''A:8080'' \<mapsto> 2]\<rparr>)"
  by (simp_all add: getBackendPodAddr_def getBackendPodAddrClntSideQLen_def demo_front_def demo_sent_def
      LB.map_add_def Let_def)

lemma demo_sent: "(c_step query up 2)\<^sup>*\<^sup>* demo_cluster demo_sent"
proof -
  let ?s1 = "demo_cluster\<lparr>front := demo_front, refreshes := 0\<rparr>"
  have "refreshed [''A''] [[''A'']] (front demo_cluster) = demo_front"
    by (auto simp: refreshed_def new_pods_def demo_cluster_def demo_front_def newLB_def pod_addr_def)
  moreover have "monitorPods [''A''] (Inr [[''A'']]) (front demo_cluster) = Inr (refreshed [''A''] [[''A'']] (front demo_cluster))"
    by (subst monitorPods_eq) (simp_all add: demo_cluster_def newLB_def)
  ultimately have "c_step query up 2 demo_cluster ?s1"
    by (intro c_refresh [of _ _ "[''A'']" "[[''A'']]"]) (simp_all add: demo_cluster_def newLB_def)
  moreover have "c_step query up 2 ?s1 demo_sent"
    using c_pick [of 0 2 ?s1 "[''A:8080'']" "''A:8080''" "demo_front\<lparr>outstandingReqs := [''A:8080'' \<mapsto> 1]\<rparr>" query up] demo_picks(1)
    by (simp add: demo_sent_def demo_cluster_def covers_def demo_front_def)
  ultimately show ?thesis by (meson rtranclp.simps)
qed


end
