(* ===== verification/SpinAbs.thy ===== *)
theory SpinAbs
  imports SpinQueue
begin

text \<open>
  What the web server promises, as an abstract service station: requests wait, are served,
  and are answered, with never more of them in service than the station has slots. The
  server of \<open>SpinQueue\<close>, with its channels, counters and program points, is shown to
  implement it.
\<close>

section \<open>The station\<close>

datatype phase = Outside | Waiting | InService | Answered request | Refused response

type_synonym station = "nat \<Rightarrow> phase"

text \<open>
  A request enters or is refused with status 400; one that waits is taken into service
  when a slot is free; one in service leaves with an answer that makes sense among \<open>n\<close>
  requests.
\<close>

inductive station_step :: "nat \<Rightarrow> nat \<Rightarrow> station \<Rightarrow> station \<Rightarrow> bool" for k :: nat and n :: nat where
  st_enter: "i < n \<Longrightarrow> p i = Outside \<Longrightarrow> station_step k n p (p(i := Waiting))"
| st_refuse: "i < n \<Longrightarrow> p i = Outside \<Longrightarrow> code resp = Some 400 \<Longrightarrow> station_step k n p (p(i := Refused resp))"
| st_begin: "i < n \<Longrightarrow> p i = Waiting \<Longrightarrow> tally (\<lambda>x. x = InService) p n < int k \<Longrightarrow>
     station_step k n p (p(i := InService))"
| st_answer: "i < n \<Longrightarrow> p i = InService \<Longrightarrow> reply_ok n r \<Longrightarrow> station_step k n p (p(i := Answered r))"

text \<open>What every station keeps: its capacity, and the form of what it has answered.\<close>

definition station_inv :: "nat \<Rightarrow> nat \<Rightarrow> station \<Rightarrow> bool" where
  "station_inv k n p \<longleftrightarrow> tally (\<lambda>x. x = InService) p n \<le> int k
     \<and> (\<forall>i r. p i = Answered r \<longrightarrow> reply_ok n r) \<and> (\<forall>i resp. p i = Refused resp \<longrightarrow> code resp = Some 400)"

interpretation sta: machine_invariant "\<lambda>p. p = (\<lambda>_. Outside)" "station_step k n" "station_inv k n"
proof
  fix p q assume "station_inv k n p" and "station_step k n p q"
  from this(2,1) show "station_inv k n q"
    by cases (auto simp: station_inv_def tally_upd split: if_splits)
qed (simp add: station_inv_def)

section \<open>The server as a station\<close>

definition phase_of :: "sys \<Rightarrow> nat \<Rightarrow> phase" where
  "phase_of s i =
     (if queued s i then Waiting
      else (case hp s i of
              HWait \<Rightarrow> InService
            | HDone r \<Rightarrow> Answered r
            | HRejected resp \<Rightarrow> Refused resp
            | _ \<Rightarrow> Outside))"

lemma queued_plain: "matched n s \<Longrightarrow> hp s i \<noteq> HWait \<Longrightarrow> queued s i = (hp s i \<in> {HCounted, HQueued})"
  using queued_not_waiting [of n s i] by (auto simp: queued_def)

lemma phase_handler:
  assumes "matched n s" and "hp s i \<noteq> HWait" and "hp t = (hp s)(i := h)" and "wp t = wp s"
    and "workers t = workers s"
  shows "phase_of t = (phase_of s)
    (i := if h \<in> {HCounted, HQueued} then Waiting
          else (case h of HWait \<Rightarrow> InService | HDone r \<Rightarrow> Answered r | HRejected resp \<Rightarrow> Refused resp | _ \<Rightarrow> Outside))"
  using queued_handler [OF assms(3-5)] queued_not_waiting [OF assms(1,2)] assms(3)
  by (auto simp: phase_of_def fun_eq_iff)

text \<open>A waiting request that a worker has received leaves room among those in service.\<close>

lemma room_for_received:
  assumes "matched n s" and "j < workers s" and "wp s j = WGot i"
  shows "tally (\<lambda>x. x = InService) (phase_of s) n < int (workers s)"
proof -
  let ?S = "{m. m < n \<and> phase_of s m = InService}" and ?J = "{..<workers s} - {j}"
  have "?S \<subseteq> (\<lambda>j'. the (held (wp s j'))) ` ?J"
  proof
    fix m assume "m \<in> ?S"
    then have "hp s m = HWait" "\<not> queued s m" by (auto simp: phase_of_def split: if_splits hpc.splits)
    then obtain j' where "j' < workers s" "held (wp s j') = Some m" "j' \<noteq> j"
      using matched_holder [OF assms(1)] assms(2,3) by (metis held.simps(2) option.inject queued_def)
    then show "m \<in> (\<lambda>j'. the (held (wp s j'))) ` ?J" by force
  qed
  then have "card ?S \<le> card ?J"
    by (meson card_image_le card_mono finite_Diff finite_imageI finite_lessThan order_trans)
  also have "card ?J < workers s" using assms(2) by simp
  finally show ?thesis by (simp add: tally_card)
qed

lemma spinHandler_refuses: "spinHandler q ms s = Inl resp \<Longrightarrow> code resp = Some 400"
  by (auto simp: spinHandler_def Let_def http_error_def new_response_def split: if_splits option.splits)

lemma phase_same:
  assumes "hp t = hp s" and "queued t = queued s"
  shows "phase_of t = phase_of s"
  using assms by (simp add: phase_of_def fun_eq_iff)

definition q_inv_slots :: "int \<Rightarrow> nat \<Rightarrow> sys \<Rightarrow> bool" where
  "q_inv_slots slots n s \<longleftrightarrow> q_inv n s \<and> workers s = nat slots"

text \<open>The steps of the station, with the state after them given by an equation.\<close>

lemma station_stepI:
  "i < n \<Longrightarrow> p i = Outside \<Longrightarrow> q = p(i := Waiting) \<Longrightarrow> station_step k n p q"
  "i < n \<Longrightarrow> p i = Outside \<Longrightarrow> code resp = Some 400 \<Longrightarrow> q = p(i := Refused resp) \<Longrightarrow> station_step k n p q"
  "i < n \<Longrightarrow> p i = Waiting \<Longrightarrow> tally (\<lambda>x. x = InService) p n < int k \<Longrightarrow> q = p(i := InService) \<Longrightarrow> station_step k n p q"
  "i < n \<Longrightarrow> p i = InService \<Longrightarrow> reply_ok n r \<Longrightarrow> q = p(i := Answered r) \<Longrightarrow> station_step k n p q"
  by (simp_all add: station_step.intros)

text \<open>A worker that counts a request out takes it into service; one that replies answers it.\<close>

lemma station_begin:
  assumes "matched n s" and "j < workers s" and "wp s j = WGot i"
    and "hp t = hp s" and "wp t = (wp s)(j := WCnt i)" and "workers t = workers s"
  shows "station_step (workers s) n (phase_of s) (phase_of t)"
proof -
  have q: "queued t = (queued s)(i := False)"
    using queued_step_worker [OF assms(1,2), of i "WCnt i"] assms by (simp add: queued_def fun_eq_iff)
  have i: "i < n" "hp s i = HWait" using matchedD(1,2) [OF assms(1,2), of i] assms(3) by simp_all
  have "phase_of t = (phase_of s)(i := InService)"
    using q i(2) assms(4) by (simp add: phase_of_def fun_eq_iff)
  moreover have "phase_of s i = Waiting" using assms(2,3) by (auto simp: phase_of_def queued_def)
  ultimately show ?thesis
    by (intro station_stepI(3) [OF i(1)] room_for_received [OF assms(1-3)])
qed

lemma station_answer:
  assumes "matched n s" and "filled n s" and "j < workers s" and "wp s j = WFlag i" and "i < n" and "hp s i = HWait"
    and "hp t = (hp s)(i := HDone (reqs s i))" and "wp t = (wp s)(j := WIdle)" and "workers t = workers s"
  shows "station_step k n (phase_of s) (phase_of t)"
proof -
  have "wp t j' = WGot m \<longleftrightarrow> wp s j' = WGot m" for j' m using assms(4,8) by auto
  then have q: "queued t m = (m \<noteq> i \<and> queued s m \<or> (\<exists>j<workers s. wp s j = WGot m))" for m
    using assms(6,7,9) by (auto simp: queued_def)
  have "wp s j' \<noteq> WGot i" if "j' < workers s" for j'
    using matchedD(3) [OF assms(1,3), of i j'] that assms(4) by auto
  then have n: "\<not> queued s i" "\<not> queued t i" using assms(6) q by (auto simp: queued_def)
  have "queued t = queued s" using q n by (auto simp: fun_eq_iff queued_def)
  then have "phase_of t = (phase_of s)(i := Answered (reqs s i))"
    using n assms(7) by (auto simp: phase_of_def fun_eq_iff)
  moreover have "phase_of s i = InService" using assms(6) n by (simp add: phase_of_def)
  moreover have "worker_knows n (wp s j) (reqs s)" "handler_knows (workers s) n (hp s i) (reqs s i)"
    using assms(2,3) by (simp_all add: filled_def)
  then have "reply_ok n (reqs s i)" using assms(4,6) by (simp add: reply_ok_def start_ok_def finish_ok_def)
  ultimately show ?thesis by (intro station_stepI(4) [OF assms(5)])
qed

text \<open>The other steps of the workers, and a send on the queue, are not seen.\<close>

lemma phase_send:
  assumes "hp s i = HQueued" and "wp s j = WIdle" and "j < workers s"
    and "hp t = (hp s)(i := HWait)" and "wp t = (wp s)(j := WGot i)" and "workers t = workers s"
  shows "phase_of t = phase_of s"
proof -
  have "wp t j' = WGot m \<longleftrightarrow> wp s j' = WGot m \<or> j' = j \<and> m = i" for j' m using assms(2,5) by auto
  then have "queued t = queued s" using assms by (auto simp: queued_def fun_eq_iff)
  moreover have "queued s i" using assms(1) by (simp add: queued_def)
  ultimately show ?thesis using assms(4) by (simp add: phase_of_def fun_eq_iff)
qed

lemma station_simulates:
  assumes "q_inv_slots slots n s" and step: "q_step query n s t" and "phase_of t \<noteq> phase_of s"
  shows "station_step (nat slots) n (phase_of s) (phase_of t)"
proof -
  have m: "matched n s" and f: "filled n s" and k: "nat slots = workers s"
    using assms(1) by (simp_all add: q_inv_slots_def q_inv_def)
  note w = workers_step [OF step] and H = phase_handler [OF m _ _ _ workers_step [OF step]]
  note plain = queued_plain [OF m]
  have same: False if "hp t = hp s" "queued t = queued s"
    using phase_same [OF that] assms(3) by blast
  from step show ?thesis
  proof (cases rule: q_step.cases)
    case (q_reject i ms resp)
    have "phase_of t = (phase_of s)(i := Refused resp)" using q_reject H [of i "HRejected resp"] by simp
    moreover have "phase_of s i = Outside" using q_reject(4) plain [of i] by (simp add: phase_of_def)
    ultimately show ?thesis using q_reject(3) spinHandler_refuses [OF q_reject(5)] by (intro station_stepI(2))
  next
    case (q_arrive i)
    have "phase_of t = (phase_of s)(i := Outside)" using q_arrive H [of i HNew] by simp
    moreover have "phase_of s i = Outside" using q_arrive(4) plain [of i] by (simp add: phase_of_def)
    ultimately show ?thesis using assms(3) by (simp add: fun_upd_idem)
  next
    case (q_add i)
    have "phase_of t = (phase_of s)(i := Waiting)" using q_add H [of i HCounted] by simp
    moreover have "phase_of s i = Outside" using q_add(4) plain [of i] by (simp add: phase_of_def)
    ultimately show ?thesis using q_add(3) by (intro station_stepI(1))
  next
    case (q_load i)
    have "phase_of t = (phase_of s)(i := Waiting)" using q_load H [of i HQueued] by simp
    moreover have "phase_of s i = Waiting" using q_load(4) by (simp add: phase_of_def queued_def)
    ultimately show ?thesis using assms(3) by (simp add: fun_upd_idem)
  next
    case (q_send i j)
    then show ?thesis using phase_send [OF q_send(4,6,5)] w assms(3) by simp
  next
    case (w_sub j i)
    then show ?thesis using station_begin [OF m w_sub(3,4)] w k by simp
  next
    case (w_done j i)
    then show ?thesis using station_answer [OF m f w_done(3-6)] w by simp
  next
    case w_panic
    then show ?thesis using same w by (simp add: queued_def fun_eq_iff)
  next
    case (w_lat j i)
    then show ?thesis using same queued_same [OF _ w, of j "WLat i"] by simp
  next
    case (w_spin j i)
    then show ?thesis using same queued_same [OF _ w, of j "WSpun i"] by simp
  next
    case (w_rate j i)
    then show ?thesis using same queued_same [OF _ w, of j "WRated i"] by simp
  next
    case (w_finish j i)
    then show ?thesis using same queued_same [OF _ w, of j "WFin i"] by simp
  next
    case (w_flag j i)
    then show ?thesis using same queued_same [OF _ w, of j "WFlag i"] by simp
  qed
qed

interpretation spr: machine_refinement "q_start slots" "q_step query n" "q_inv_slots slots n"
  "\<lambda>p. p = (\<lambda>_. Outside)" "station_step (nat slots) n" phase_of
proof
  fix s assume s: "q_start slots s"
  then show "q_inv_slots slots n s"
    using spq.inv_start [OF s, of n] by (auto simp: q_inv_slots_def q_start_def workers_def newSrv_def)
  show "phase_of s = (\<lambda>_. Outside)"
    using s by (auto simp: q_start_def phase_of_def queued_def fun_eq_iff)
next
  fix s t assume "q_inv_slots slots n s" "q_step query n s t"
  then show "q_inv_slots slots n t" by (auto simp: q_inv_slots_def intro: spq.inv_step)
qed (rule station_simulates)

section \<open>Properties\<close>

text \<open>
  C4. The web server refines the service station. From a reachable state every run of the
  server's handlers and workers, over its channels and counters, is a run of the station
  with \<open>nslots\<close> slots, in which a request is waiting from its \<open>qlen.Add(1)\<close> until the
  worker's \<open>qlen.Add(-1)\<close>, in service until its reply, and refused with status 400 or
  answered after that. So there are never more than \<open>nslots\<close> requests in service, and
  \<open>qlen\<close> is the number of requests that wait.
\<close>

theorem spin_server_is_station:
  assumes "reach (q_start slots) (q_step query n) s"
  shows "reach (\<lambda>p. p = (\<lambda>_. Outside)) (station_step (nat slots) n) (phase_of s)
    \<and> ((q_step query n)\<^sup>*\<^sup>* s t \<longrightarrow> (station_step (nat slots) n)\<^sup>*\<^sup>* (phase_of s) (phase_of t))
    \<and> tally (\<lambda>x. x = InService) (phase_of s) n \<le> int (nat slots)
    \<and> qlen s = tally (\<lambda>x. x = Waiting) (phase_of s) n"
proof -
  have r: "reach (\<lambda>p. p = (\<lambda>_. Outside)) (station_step (nat slots) n) (phase_of s)"
    by (rule spr.reach_abs [OF assms])
  have inv: "q_inv_slots slots n s" by (rule spr.reach_inv [OF assms])
  then have "qlen s = tally id (queued s) n" by (simp add: q_inv_slots_def q_inv_def counted_def)
  also have "\<dots> = tally (\<lambda>x. x = Waiting) (phase_of s) n"
    by (rule tally_cong) (auto simp: phase_of_def split: hpc.splits)
  finally show ?thesis
    using r sta.reach_inv [OF r] spr.steps_abs [OF _ inv] by (simp add: station_inv_def)
qed

theorem spin_server_is_station_witness:
  "\<exists>s :: sys. qlen s = 1 \<and> tally (\<lambda>x. x = Waiting) (phase_of s) 3 = 1 \<and> tally (\<lambda>x. x = InService) (phase_of s) 3 \<le> 2"
proof -
  obtain s where s: "reach (q_start 2) (q_step demo_query 3) s" "qlen s = 1"
    using demo_counted [of 3 2] by auto
  have "qlen s = 1 \<and> tally (\<lambda>x. x = Waiting) (phase_of s) 3 = 1 \<and> tally (\<lambda>x. x = InService) (phase_of s) 3 \<le> 2"
    using spin_server_is_station [OF s(1), of s] s(2) by simp
  then show ?thesis by blast
qed

end
