(* ===== verification/LoadStats.thy ===== *)
theory LoadStats
  imports GoStr GoTime
begin

text \<open>
  \<open>kubernetes/elasticity/loadgen/loadgen_test.go\<close>: the open-loop load generator for the spin
  server and its latency statistics over a sliding window of ten one-second ticks. Times
  are milliseconds since the epoch, latencies nanoseconds; mean and percentiles come from a
  statistics package that is a parameter.
\<close>

section \<open>Recording\<close>

definition STATS_WINDOW_SIZE :: int where "STATS_WINDOW_SIZE = 10"

record Stats =
  st_start :: int
  st_end :: int
  st_done :: bool
  lats :: "int \<rightharpoonup> int list"

definition newStats :: Stats where
  "newStats = \<lparr>st_start = 0, st_end = 0, st_done = False, lats = Map.empty\<rparr>"

definition timeToTicks :: "int \<Rightarrow> int" where
  "timeToTicks ms = ms sdiv 1000"

definition startRecording :: "int \<Rightarrow> Stats \<Rightarrow> Stats" where
  "startRecording now s = s\<lparr>st_start := timeToTicks now\<rparr>"

definition stopRecording :: "int \<Rightarrow> Stats \<Rightarrow> Stats" where
  "stopRecording now s = s\<lparr>st_end := timeToTicks now, st_done := True\<rparr>"

definition addLatency :: "int \<Rightarrow> int \<Rightarrow> Stats \<Rightarrow> Stats" where
  "addLatency completionTime lat s =
     (let cTicks = timeToTicks completionTime - st_start s;
          s1 = (if lats s cTicks = None then s\<lparr>lats := (lats s)(cTicks \<mapsto> [])\<rparr> else s)
      in s1\<lparr>lats := (lats s1)(cTicks \<mapsto> the (lats s1 cTicks) @ [lat])\<rparr>)"

section \<open>Printing\<close>

text \<open>The latencies a window collects, in seconds.\<close>

definition window_flats :: "Stats \<Rightarrow> int \<Rightarrow> rat list" where
  "window_flats s i =
     concat (map (\<lambda>j. case lats s j of None \<Rightarrow> [] | Some ls \<Rightarrow> map (\<lambda>l. of_int l / of_int Second) ls)
       [i - STATS_WINDOW_SIZE .. i - 1])"

definition roundToHundredth :: "rat \<Rightarrow> rat" where
  "roundToHundredth f = (let x = 100 * f in of_int (if x < 0 then \<lceil>x - 1 / 2\<rceil> else \<lfloor>x + 1 / 2\<rfloor>) / 100)"

text \<open>
  The per-tick arrays that \<open>print\<close> fills for one statistic: zeros where a window has no
  replies. A negative length panics in \<open>make\<close>, and an index outside the array would panic.
\<close>

fun fill_windows :: "(rat list \<Rightarrow> rat) \<Rightarrow> Stats \<Rightarrow> int list \<Rightarrow> rat list \<Rightarrow> go_stop + rat list" where
  "fill_windows stat s [] a = Inr a"
| "fill_windows stat s (i # is) a =
     (let flats = window_flats s i
      in if flats = [] then fill_windows stat s is a
         else if i < 0 \<or> int (length a) \<le> i then Inl (Panic ''index out of range'')
         else fill_windows stat s is (a[nat i := roundToHundredth (stat flats)]))"

definition print_stat :: "(rat list \<Rightarrow> rat) \<Rightarrow> Stats \<Rightarrow> go_stop + rat list" where
  "print_stat stat s =
     (let d = st_end s - st_start s
      in if d + 2 < 0 then Inl (Panic ''makeslice: len out of range'')
         else fill_windows stat s [STATS_WINDOW_SIZE .. d + 1] (replicate (nat (d + 2)) 0))"

section \<open>Requests\<close>

definition baseurl :: "string \<Rightarrow> string \<Rightarrow> string" where
  "baseurl addr durstr = ''http://'' @ addr @ ''/spin?dur='' @ durstr"

definition request_url :: "string \<Rightarrow> int \<Rightarrow> string" where
  "request_url base rid = base @ ''&id='' @ Itoa rid"

text \<open>
  \<open>startRequests\<close>: the pause between requests, and the IDs it takes from the shared counter.
  Calls run concurrently, so one call need not get consecutive IDs; \<open>cnts\<close> gives the value
  of the counter at each \<open>Add\<close>.
\<close>

definition startRequests :: "int \<Rightarrow> (nat \<Rightarrow> int) \<Rightarrow> string \<Rightarrow> go_stop + int \<times> string list" where
  "startRequests rps cnts base =
     (if rps = 0 then Inl (Panic ''integer divide by zero'')
      else Inr ((1000 * Millisecond) sdiv rps, map (\<lambda>i. request_url base (cnts i)) [0..<nat rps]))"

section \<open>Lemmas\<close>

text \<open>A recorded run: completions with their times and latencies, in the order of their locks.\<close>

definition record_all :: "(int \<times> int) list \<Rightarrow> Stats \<Rightarrow> Stats" where
  "record_all cs s = fold (\<lambda>(t, l). addLatency t l) cs s"

lemma addLatency_simps [simp]:
  "st_start (addLatency t l s) = st_start s" "st_end (addLatency t l s) = st_end s"
  by (simp_all add: addLatency_def Let_def)

lemma addLatency_lats:
  "lats (addLatency t l s) j =
     (if j = timeToTicks t - st_start s
      then Some ((case lats s j of None \<Rightarrow> [] | Some ls \<Rightarrow> ls) @ [l]) else lats s j)"
  by (auto simp: addLatency_def Let_def split: option.splits)

lemma record_all_simps [simp]:
  "record_all [] s = s" "record_all (cs @ [(t, l)]) s = addLatency t l (record_all cs s)"
  by (simp_all add: record_all_def)

lemma record_all_start [simp]: "st_start (record_all cs s) = st_start s"
  by (induction cs rule: rev_induct) (auto simp: record_all_def split: prod.splits)

lemma record_all_end [simp]: "st_end (record_all cs s) = st_end s"
  by (induction cs rule: rev_induct) (auto simp: record_all_def split: prod.splits)

text \<open>The completions of one tick.\<close>

definition at_tick :: "int \<Rightarrow> (int \<times> int) list \<Rightarrow> int \<Rightarrow> int list" where
  "at_tick st cs j = map snd (filter (\<lambda>c. timeToTicks (fst c) - st = j) cs)"

lemma record_all_lats:
  assumes "lats s = Map.empty"
  shows "(case lats (record_all cs s) j of None \<Rightarrow> [] | Some ls \<Rightarrow> ls) = at_tick (st_start s) cs j"
proof (induction cs rule: rev_induct)
  case Nil
  with assms show ?case by (simp add: at_tick_def)
next
  case (snoc c cs)
  obtain t l where "c = (t, l)" by fastforce
  with snoc show ?case
    by (cases "j = timeToTicks t - st_start s") (auto simp: addLatency_lats at_tick_def split: option.splits)
qed

lemma window_flats_ticks:
  assumes "lats s = Map.empty"
  shows "window_flats (record_all cs s) i =
    concat (map (\<lambda>j. map (\<lambda>l. of_int l / of_int Second) (at_tick (st_start s) cs j)) [i - STATS_WINDOW_SIZE .. i - 1])"
proof -
  have "(case lats (record_all cs s) j of None \<Rightarrow> [] | Some ls \<Rightarrow> map f ls) = map f (at_tick (st_start s) cs j)" for f :: "int \<Rightarrow> rat" and j
    using record_all_lats [OF assms, of cs j] by (auto split: option.splits)
  then show ?thesis by (simp add: window_flats_def)
qed

text \<open>Filling never leaves the array, and touches the windows only.\<close>

lemma fill_windows_ok:
  assumes "\<forall>i\<in>set is. 0 \<le> i \<and> i < int (length a)" and "distinct is"
  shows "\<exists>b. fill_windows stat s is a = Inr b \<and> length b = length a
    \<and> (\<forall>k<length a. b ! k = (if int k \<in> set is \<and> window_flats s (int k) \<noteq> []
          then roundToHundredth (stat (window_flats s (int k))) else a ! k))"
  using assms
proof (induction "is" arbitrary: a)
  case (Cons i "is")
  define a1 where "a1 = (if window_flats s i = [] then a else a[nat i := roundToHundredth (stat (window_flats s i))])"
  have len: "length a1 = length a" by (simp add: a1_def)
  have step: "fill_windows stat s (i # is) a = fill_windows stat s is a1"
    using Cons.prems(1) by (simp add: a1_def Let_def)
  obtain b where "fill_windows stat s is a1 = Inr b" "length b = length a1"
    and b: "\<forall>k<length a1. b ! k = (if int k \<in> set is \<and> window_flats s (int k) \<noteq> []
        then roundToHundredth (stat (window_flats s (int k))) else a1 ! k)"
    using Cons.IH [of a1] Cons.prems len by auto
  moreover have "b ! k = (if int k \<in> set (i # is) \<and> window_flats s (int k) \<noteq> []
      then roundToHundredth (stat (window_flats s (int k))) else a ! k)" if "k < length a" for k
    using b that len Cons.prems by (auto simp: a1_def nth_list_update)
  ultimately show ?case using step len by auto
qed simp

lemma timeToTicks_nonneg: "0 \<le> t \<Longrightarrow> timeToTicks t = t div 1000"
  by (cases "t = 0") (simp_all add: timeToTicks_def signed_divide_int_def sgn_if)

lemma timeToTicks_mono: "0 \<le> t \<Longrightarrow> t \<le> u \<Longrightarrow> timeToTicks t \<le> timeToTicks u"
  by (simp add: timeToTicks_nonneg zdiv_mono1)

lemma stop_simps [simp]:
  "window_flats (stopRecording e s) i = window_flats s i"
  "st_start (stopRecording e s) = st_start s" "st_end (stopRecording e s) = timeToTicks e"
  "st_start (startRecording b s) = timeToTicks b" "lats (startRecording b s) = lats s" "lats newStats = Map.empty"
  by (simp_all add: window_flats_def stopRecording_def startRecording_def newStats_def)

text \<open>A completion at tick \<open>j\<close> is in the windows after it, of which one is printed.\<close>

lemma in_some_window:
  assumes "0 \<le> b" and "b \<le> t" and "t \<le> e" and E: "E = timeToTicks e - timeToTicks b" and "9 \<le> E"
  shows "\<exists>i. 10 \<le> i \<and> i \<le> E + 1 \<and> timeToTicks t - timeToTicks b \<in> {i - 10 .. i - 1}"
proof -
  define j where "j = timeToTicks t - timeToTicks b"
  have "0 \<le> j" "j \<le> E"
    using timeToTicks_mono [OF assms(1,2)] timeToTicks_mono [of t e] assms(1-3) E by (simp_all add: j_def)
  with assms(5) have "10 \<le> max 10 (j + 1) \<and> max 10 (j + 1) \<le> E + 1 \<and> j \<in> {max 10 (j + 1) - 10 .. max 10 (j + 1) - 1}"
    by auto
  then show ?thesis unfolding j_def by blast
qed

section \<open>Properties\<close>

text \<open>The latencies of the completions in the ten ticks before tick \<open>i\<close>, tick by tick.\<close>

definition window_of :: "int \<Rightarrow> (int \<times> int) list \<Rightarrow> int \<Rightarrow> rat list" where
  "window_of b cs i = concat (map (\<lambda>j. map (\<lambda>l. of_int l / of_int Second) (at_tick (timeToTicks b) cs j)) [i - 10 .. i - 1])"

text \<open>Printing never leaves its arrays, and each entry is that of its window.\<close>

lemma print_windows:
  assumes "0 \<le> b" and "b \<le> e" and E: "E = timeToTicks e - timeToTicks b"
  shows "\<exists>a. print_stat stat (stopRecording e (record_all cs (startRecording b newStats))) = Inr a
      \<and> int (length a) = E + 2
      \<and> (\<forall>i. 0 \<le> i \<and> i \<le> E + 1 \<longrightarrow>
           a ! nat i = (if 10 \<le> i \<and> window_of b cs i \<noteq> [] then roundToHundredth (stat (window_of b cs i)) else 0))"
proof -
  let ?s = "stopRecording e (record_all cs (startRecording b newStats))"
  have "0 \<le> E" using timeToTicks_mono [OF assms(1,2)] E by simp
  have flats: "window_flats ?s i = window_of b cs i" for i
    by (simp add: window_flats_ticks window_of_def STATS_WINDOW_SIZE_def)
  have "\<exists>a. fill_windows stat ?s [10 .. E + 1] (replicate (nat (E + 2)) 0) = Inr a
      \<and> length a = length (replicate (nat (E + 2)) (0 :: rat))
      \<and> (\<forall>k<length (replicate (nat (E + 2)) (0 :: rat)). a ! k =
          (if int k \<in> set [10 .. E + 1] \<and> window_of b cs (int k) \<noteq> []
           then roundToHundredth (stat (window_of b cs (int k))) else replicate (nat (E + 2)) 0 ! k))"
    using fill_windows_ok [of "[10 .. E + 1]" "replicate (nat (E + 2)) 0" stat ?s] \<open>0 \<le> E\<close>
    unfolding flats by simp
  then obtain a where a: "fill_windows stat ?s [10 .. E + 1] (replicate (nat (E + 2)) 0) = Inr a"
    "length a = nat (E + 2)"
    and nth: "\<And>k. k < nat (E + 2) \<Longrightarrow> a ! k = (if int k \<in> set [10 .. E + 1] \<and> window_of b cs (int k) \<noteq> []
        then roundToHundredth (stat (window_of b cs (int k))) else replicate (nat (E + 2)) 0 ! k)"
    by auto
  have "print_stat stat ?s = Inr a"
    using a(1) \<open>0 \<le> E\<close> by (simp add: print_stat_def STATS_WINDOW_SIZE_def E [symmetric])
  moreover have "a ! nat i = (if 10 \<le> i \<and> window_of b cs i \<noteq> [] then roundToHundredth (stat (window_of b cs i)) else 0)"
    if "0 \<le> i \<and> i \<le> E + 1" for i
    using nth [of "nat i"] that by auto
  ultimately show "\<exists>a. print_stat stat ?s = Inr a \<and> int (length a) = E + 2
      \<and> (\<forall>i. 0 \<le> i \<and> i \<le> E + 1 \<longrightarrow>
           a ! nat i = (if 10 \<le> i \<and> window_of b cs i \<noteq> [] then roundToHundredth (stat (window_of b cs i)) else 0))"
    using a(2) \<open>0 \<le> E\<close> by auto
qed

text \<open>
  C28. The statistics of a run from \<open>b\<close> to \<open>e\<close> milliseconds with any completions in between
  never index outside their arrays. Entry \<open>i\<close> is the statistic of exactly the latencies of
  the requests that completed in the ten ticks before \<open>i\<close>, and every request is in some
  window, provided the run spans at least nine ticks; in a shorter run every entry is zero.
\<close>

theorem load_stats:
  assumes "0 \<le> b" and "b \<le> e" and "\<forall>(t, l)\<in>set cs. b \<le> t \<and> t \<le> e"
    and E: "E = timeToTicks e - timeToTicks b"
  shows "(\<exists>a. print_stat stat (stopRecording e (record_all cs (startRecording b newStats))) = Inr a
      \<and> int (length a) = E + 2
      \<and> (\<forall>i. 0 \<le> i \<and> i \<le> E + 1 \<longrightarrow>
           a ! nat i = (if 10 \<le> i \<and> window_of b cs i \<noteq> [] then roundToHundredth (stat (window_of b cs i)) else 0)))
    \<and> (9 \<le> E \<longrightarrow> (\<forall>(t, l)\<in>set cs. \<exists>i. 10 \<le> i \<and> i \<le> E + 1 \<and> timeToTicks t - timeToTicks b \<in> {i - 10 .. i - 1}))"
  using print_windows [OF assms(1,2) E, of stat cs] in_some_window [OF assms(1) _ _ E] assms(3) by fast

theorem load_stats_witness:
  "\<exists>a. print_stat hd (stopRecording 10900 (record_all [(500, 2000000000)] (startRecording 100 newStats))) = Inr a
     \<and> length a = 12 \<and> a ! 10 = 2 \<and> a ! 11 = 0"
proof -
  have t: "timeToTicks 10900 = 10" "timeToTicks 100 = 0" "timeToTicks 500 = 0"
    by (simp_all add: timeToTicks_nonneg)
  have w: "window_of 100 [(500, 2000000000)] 10 = [2]" "window_of 100 [(500, 2000000000)] 11 = []"
    by (simp_all add: window_of_def at_tick_def t Second_def upto_rec1)
  from load_stats [of 100 10900 "[(500, 2000000000)]" 10 hd] obtain a where
    a: "print_stat hd (stopRecording 10900 (record_all [(500, 2000000000)] (startRecording 100 newStats))) = Inr a"
    "int (length a) = 12" and nth: "\<forall>i. 0 \<le> i \<and> i \<le> 11 \<longrightarrow> a ! nat i =
      (if 10 \<le> i \<and> window_of 100 [(500, 2000000000)] i \<noteq> [] then roundToHundredth (hd (window_of 100 [(500, 2000000000)] i)) else 0)"
    by (auto simp: t)
  have "\<lfloor>401 / 2 :: rat\<rfloor> = 200" by (simp add: floor_eq_iff)
  then have "a ! 10 = 2 \<and> a ! 11 = 0"
    using nth [rule_format, of 10] nth [rule_format, of 11] by (simp add: w roundToHundredth_def)
  with a show ?thesis by (intro exI [of _ a]) simp
qed

end
