(* ===== verification/GoDuration.thy ===== *)
theory GoDuration
  imports GoTime
begin

text \<open>
  \<open>time.Duration.String\<close>, as the load generator uses it to build its URL, and its round trip
  with \<open>time.ParseDuration\<close>, as the web server uses it. Characters are bytes: the micro sign
  takes two.
\<close>

section \<open>The code\<close>

fun pad :: "nat \<Rightarrow> nat \<Rightarrow> string" where
  "pad 0 r = []"
| "pad (Suc k) r = pad k (r div 10) @ [digit (r mod 10)]"

definition trim_zeros :: "string \<Rightarrow> string" where
  "trim_zeros s = rev (dropWhile (\<lambda>c. c = digit 0) (rev s))"

text \<open>\<open>fmtFrac\<close>: \<open>k\<close> digits without trailing zeros, and no point when nothing is left.\<close>

definition frac :: "nat \<Rightarrow> nat \<Rightarrow> string" where
  "frac k r = (let f = trim_zeros (pad k r) in if f = [] then [] else CHR ''.'' # f)"

definition micro :: string where
  "micro = [CHR 0xC2, CHR 0xB5, CHR ''s'']"

definition fmt_seconds :: "nat \<Rightarrow> string" where
  "fmt_seconds u = digits_of (u div 1000000000 mod 60) @ frac 9 (u mod 1000000000) @ ''s''"

definition fmt_duration :: "nat \<Rightarrow> string" where
  "fmt_duration u =
     (if u = 0 then ''0s''
      else if u < 1000 then digits_of u @ ''ns''
      else if u < 1000000 then digits_of (u div 1000) @ frac 3 (u mod 1000) @ micro
      else if u < 1000000000 then digits_of (u div 1000000) @ frac 6 (u mod 1000000) @ ''ms''
      else
        let mins = u div 60000000000; hours = u div 3600000000000 in
        (if hours = 0 then [] else digits_of hours @ ''h'')
        @ (if mins = 0 then [] else digits_of (mins mod 60) @ ''m'')
        @ fmt_seconds u)"

definition Duration_String :: "int \<Rightarrow> string" where
  "Duration_String d = (if d < 0 then CHR ''-'' # fmt_duration (nat (- d)) else fmt_duration (nat d))"

lemma pad_numeral [simp]: "pad (numeral k) r = pad (pred_numeral k) (r div 10) @ [digit (r mod 10)]"
  by (metis numeral_eq_Suc pad.simps(2))

lemma Duration_String_examples:
  "Duration_String 0 = ''0s''" "Duration_String 1500000000 = ''1.5s''" "Duration_String 90000000000 = ''1m30s''"
  "Duration_String 3600000000000 = ''1h0m0s''" "Duration_String (- 20300000) = ''-20.3ms''"
  by (simp_all add: Duration_String_def fmt_duration_def fmt_seconds_def frac_def trim_zeros_def
      digits_of.simps digit_def char_of_eq_iff)

text \<open>
  \<open>Duration.Round\<close>: the nearest multiple of \<open>m\<close>, halves away from zero. The sum that passes
  the multiple wraps at 64 bits, which the code notices by its sign and answers with the
  last value of the range.
\<close>

definition wrap64 :: "int \<Rightarrow> int" where
  "wrap64 x = (x + 2 ^ 63) mod 2 ^ 64 - 2 ^ 63"

definition Duration_Round :: "int \<Rightarrow> int \<Rightarrow> int" where
  "Duration_Round d m =
     (if m \<le> 0 then d
      else if d < 0 then
        let r = - (d smod m); d1 = wrap64 (d - m + r)
        in if r + r < m then d + r else if d1 < d then d1 else - (2 ^ 63)
      else
        let r = d smod m; d1 = wrap64 (d + m - r)
        in if r + r < m then d - r else if d1 > d then d1 else 2 ^ 63 - 1)"

lemma wrap64_id: "in_int64 x \<Longrightarrow> wrap64 x = x"
  by (simp add: wrap64_def in_int64_def)

lemma wrap64_above: "2 ^ 63 \<le> x \<Longrightarrow> x < 2 ^ 64 \<Longrightarrow> wrap64 x = x - 2 ^ 64"
  using minus_mod_self2 [of "x + 2 ^ 63" "2 ^ 64"] by (simp add: wrap64_def)

lemma wrap64_below: "x < - (2 ^ 63) \<Longrightarrow> - (2 ^ 64) \<le> x \<Longrightarrow> wrap64 x = x + 2 ^ 64"
  using mod_add_self2 [of "x + 2 ^ 63" "2 ^ 64"] by (simp add: wrap64_def)

lemma smod_bounds:
  fixes d m :: int
  assumes "0 < m"
  shows "0 \<le> d \<Longrightarrow> 0 \<le> d smod m \<and> d smod m < m \<and> d smod m \<le> d"
    and "d < 0 \<Longrightarrow> d smod m \<le> 0 \<and> - m < d smod m \<and> d \<le> d smod m"
proof -
  show "0 \<le> d \<Longrightarrow> 0 \<le> d smod m \<and> d smod m < m \<and> d smod m \<le> d"
    using assms by (simp add: smod_int_alt_def sgn_if zmod_le_nonneg_dividend)
  assume "d < 0"
  then have "- d mod m \<le> - d" by (intro zmod_le_nonneg_dividend) simp
  with \<open>d < 0\<close> assms show "d smod m \<le> 0 \<and> - m < d smod m \<and> d \<le> d smod m"
    by (simp add: smod_int_alt_def sgn_if)
qed

text \<open>The result is in range and at most half of \<open>m\<close> away, also where the sum has wrapped.\<close>

lemma Duration_Round_close:
  assumes d: "in_int64 d" and m: "0 < m" "m < 2 ^ 62"
  shows "2 * \<bar>Duration_Round d m - d\<bar> \<le> m \<and> in_int64 (Duration_Round d m)"
proof (cases "d < 0")
  case True
  define r where "r = - (d smod m)"
  note r = smod_bounds(2) [OF m(1) True]
  have f: "0 \<le> r" "r < m" "r \<le> - d" using r by (simp_all add: r_def)
  have eq: "Duration_Round d m =
      (if r + r < m then d + r else if wrap64 (d - m + r) < d then wrap64 (d - m + r) else - (2 ^ 63))"
    using True m(1) by (simp add: Duration_Round_def Let_def r_def)
  show ?thesis
  proof (cases "in_int64 (d - m + r)")
    case True
    with eq f d m show ?thesis by (auto simp: wrap64_id in_int64_def)
  next
    case False
    then have "d - m + r < - (2 ^ 63)" using f d \<open>d < 0\<close> by (auto simp: in_int64_def)
    moreover from this have "wrap64 (d - m + r) = d - m + r + 2 ^ 64"
      using f d m by (intro wrap64_below) (auto simp: in_int64_def)
    ultimately show ?thesis using eq f d m by (auto simp: in_int64_def)
  qed
next
  case False
  define r where "r = d smod m"
  have f: "0 \<le> r" "r < m" "r \<le> d" using smod_bounds(1) [OF m(1), of d] False by (simp_all add: r_def)
  have eq: "Duration_Round d m =
      (if r + r < m then d - r else if wrap64 (d + m - r) > d then wrap64 (d + m - r) else 2 ^ 63 - 1)"
    using False m(1) by (simp add: Duration_Round_def Let_def r_def)
  show ?thesis
  proof (cases "in_int64 (d + m - r)")
    case True
    with eq f d m show ?thesis by (auto simp: wrap64_id in_int64_def)
  next
    case False
    then have "2 ^ 63 \<le> d + m - r" using f d by (auto simp: in_int64_def)
    moreover from this have "wrap64 (d + m - r) = d + m - r - 2 ^ 64"
      using f d m by (intro wrap64_above) (auto simp: in_int64_def)
    ultimately show ?thesis using eq f d m by (auto simp: in_int64_def)
  qed
qed

section \<open>Digits\<close>

lemma length_pad [simp]: "length (pad k r) = k"
  by (induction k r rule: pad.induct) simp_all

lemma parse_digits_pad: "parse_digits acc (pad k r) = Some (acc * 10 ^ k + r mod 10 ^ k)"
proof (induction k r rule: pad.induct)
  case (2 k r)
  have "r mod 10 ^ Suc k = 10 * (r div 10 mod 10 ^ k) + r mod 10"
    by (simp add: mod_mult2_eq)
  with 2 show ?case by (simp add: parse_digits_append algebra_simps)
qed simp

lemma digit_0_val [simp]: "digit_val (digit 0) = Some 0"
  by simp

lemma parse_digits_zeros: "parse_digits acc (replicate m (digit 0)) = Some (acc * 10 ^ m)"
  by (induction m arbitrary: acc) (simp_all add: ac_simps)

text \<open>Trailing zeros are what is cut off.\<close>

lemma trim_zeros_split: "s = trim_zeros s @ replicate (length s - length (trim_zeros s)) (digit 0)"
proof -
  let ?P = "\<lambda>c. c = digit 0"
  have "takeWhile ?P (rev s) = replicate (length (takeWhile ?P (rev s))) (digit 0)"
    by (rule replicate_eqI) (auto dest: set_takeWhileD)
  moreover have "rev s = takeWhile ?P (rev s) @ rev (trim_zeros s)"
    by (simp add: trim_zeros_def)
  ultimately obtain m where "rev s = replicate m (digit 0) @ rev (trim_zeros s)" by metis
  then have "s = trim_zeros s @ replicate m (digit 0)" by (metis rev_append rev_replicate rev_rev_ident)
  then show ?thesis by (metis add_diff_cancel_left' length_append length_replicate)
qed

lemma trimmed_value:
  assumes "r < 10 ^ k"
  defines "f \<equiv> trim_zeros (pad k r)"
  shows "length f \<le> k" and "digits_val f * 10 ^ (k - length f) = r"
    and "list_all is_digit f"
proof -
  have split: "pad k r = f @ replicate (k - length f) (digit 0)"
    using trim_zeros_split [of "pad k r"] by (simp add: f_def)
  show "length f \<le> k" using arg_cong [OF split, of length] by simp
  have parse: "parse_digits 0 (pad k r) = Some r" using assms(1) by (simp add: parse_digits_pad)
  then show "digits_val f * 10 ^ (k - length f) = r"
    by (subst (asm) split) (auto simp: parse_digits_append parse_digits_zeros digits_val_def split: option.splits)
  have "list_all is_digit (pad k r)" for k r
    by (induction k r rule: pad.induct) (simp_all add: is_digit_def)
  then show "list_all is_digit f" by (metis split list_all_append)
qed

lemma digits_of_digits: "list_all is_digit (digits_of n)"
  using digits_of_chars by (auto simp: list_all_iff is_digit_def)

lemma span_digits:
  assumes "list_all is_digit ds" and "rest = [] \<or> \<not> is_digit (hd rest)"
  shows "takeWhile is_digit (ds @ rest) = ds" and "dropWhile is_digit (ds @ rest) = rest"
proof -
  have "takeWhile is_digit rest = []" "dropWhile is_digit rest = rest"
    using assms(2) by (cases rest; simp)+
  then show "takeWhile is_digit (ds @ rest) = ds" and "dropWhile is_digit (ds @ rest) = rest"
    using assms(1) by (induction ds) auto
qed

lemma span_unit:
  assumes "list_all unit_char u" and "rest = [] \<or> is_digit (hd rest)"
  shows "takeWhile unit_char (u @ rest) = u" and "dropWhile unit_char (u @ rest) = rest"
proof -
  have "takeWhile unit_char rest = []" "dropWhile unit_char rest = rest"
    using assms(2) by (cases rest; simp add: unit_char_def)+
  then show "takeWhile unit_char (u @ rest) = u" and "dropWhile unit_char (u @ rest) = rest"
    using assms(1) by (induction u) auto
qed

section \<open>One group\<close>

text \<open>\<open>k\<close> decimals of a unit that is \<open>c\<close> times the \<open>k\<close>-th power of ten nanoseconds.\<close>

lemma parse_group_printed:
  assumes u: "list_all unit_char u" "unit_ns u = Some unit" "unit = 10 ^ k * c"
    and r: "r < 10 ^ k" and rest: "rest = [] \<or> is_digit (hd rest)"
    and small: "v * unit + r * c \<le> 2 ^ 63"
  shows "parse_group (digits_of v @ frac k r @ u @ rest) = Some (v * unit + r * c, rest)"
proof -
  define f where "f = trim_zeros (pad k r)"
  note f = trimmed_value [OF r, folded f_def]
  have u_ne: "u \<noteq> []" using u(2) by (auto simp: unit_ns_def)
  have u1: "\<not> is_digit (hd u)" "hd u \<noteq> CHR ''.''"
    using u(1) u_ne by (cases u; simp add: unit_char_def)+
  have "unit_char (hd (u @ rest))" using u(1) u_ne by (cases u) simp_all
  have pos: "0 < unit" using u(2) by (auto simp: unit_ns_def split: if_splits)
  have "\<not> is_digit (CHR ''.'')" by (simp add: is_digit_def digit_val_def Let_def)
  then have start: "frac k r @ u @ rest = [] \<or> \<not> is_digit (hd (frac k r @ u @ rest))"
    using u_ne u1(1) by (simp add: frac_def Let_def)
  have head: "takeWhile is_digit (digits_of v @ frac k r @ u @ rest) = digits_of v"
    "dropWhile is_digit (digits_of v @ frac k r @ u @ rest) = frac k r @ u @ rest"
    using span_digits [OF digits_of_digits start] by simp_all
  have split: "split_fraction (frac k r @ u @ rest) = (f, u @ rest)"
    using span_digits [OF f(3), of "u @ rest"] u_ne u1 by (auto simp: split_fraction_def frac_def Let_def f_def [symmetric])
  have "10 ^ k = (10 ^ length f * 10 ^ (k - length f) :: nat)"
    using f(1) by (simp flip: power_add)
  then have "digits_val f * unit = (digits_val f * 10 ^ (k - length f)) * c * 10 ^ length f"
    by (simp add: u(3) ac_simps)
  then have part: "digits_val f * unit div 10 ^ length f = r * c" by (simp add: f(2))
  have v: "digits_val (digits_of v) = v" by (simp add: digits_val_def parse_digits_of)
  have "v * unit \<le> 2 ^ 63" using small by simp
  then have v_small: "v \<le> 2 ^ 63 div unit" using pos by (simp add: less_eq_div_iff_mult_less_eq)
  also have "\<dots> \<le> 2 ^ 63" by simp
  finally have "v \<le> 2 ^ 63" .
  with v_small small show ?thesis
    unfolding parse_group_def Let_def head split prod.case span_unit [OF u(1) rest] u(2) option.case part v
    by simp
qed

lemma unit_chars:
  "list_all unit_char ''ns''" "list_all unit_char micro" "list_all unit_char ''ms''" "list_all unit_char ''s''"
  "list_all unit_char ''m''" "list_all unit_char ''h''"
  by (simp_all add: unit_char_def is_digit_def digit_val_def micro_def Let_def)

lemma frac_0 [simp]: "frac 0 r = []"
  by (simp add: frac_def trim_zeros_def)

lemma hd_digits_of: "is_digit (hd (digits_of n @ rest))"
  using digits_of_digits [of n] by (cases "digits_of n") simp_all

lemma unit_values:
  "unit_ns ''ns'' = Some (10 ^ 0 * 1)" "unit_ns micro = Some (10 ^ 3 * 1)" "unit_ns ''ms'' = Some (10 ^ 6 * 1)"
  "unit_ns ''s'' = Some (10 ^ 9 * 1)" "unit_ns ''m'' = Some (10 ^ 0 * 60000000000)"
  "unit_ns ''h'' = Some (10 ^ 0 * 3600000000000)"
  by (simp_all add: unit_ns_def micro_def)

definition group_rest :: "string \<Rightarrow> bool" where
  "group_rest rest \<longleftrightarrow> rest = [] \<or> is_digit (hd rest)"

lemma group_rest_simps [simp]: "group_rest []" "group_rest (digits_of n @ rest)"
  using hd_digits_of [of n "[]"] by (simp_all add: group_rest_def)

text \<open>A printed group in a longer string: its value is added and the rest is parsed.\<close>

lemma parse_groups_printed:
  assumes "list_all unit_char u" and "unit_ns u = Some (10 ^ k * c)" and "r < 10 ^ k" and "group_rest rest"
    and "d + (v * (10 ^ k * c) + r * c) \<le> 2 ^ 63"
  shows "parse_groups d (digits_of v @ frac k r @ u @ rest) = parse_groups (d + (v * (10 ^ k * c) + r * c)) rest"
proof -
  have "parse_group (digits_of v @ frac k r @ u @ rest) = Some (v * (10 ^ k * c) + r * c, rest)"
    using assms by (intro parse_group_printed) (simp_all add: group_rest_def)
  moreover have "\<not> d + (v * (10 ^ k * c) + r * c) > 2 ^ 63" using assms(5) by linarith
  ultimately show ?thesis
    by (subst parse_groups.simps) (simp only: digits_of_ne append_is_Nil_conv option.case prod.case if_False simp_thms)
qed

lemma parse_groups_Nil [simp]: "parse_groups d [] = Some d"
  by (subst parse_groups.simps) simp

section \<open>Durations\<close>

lemma parse_seconds:
  assumes "d + (u div 1000000000 mod 60 * 1000000000 + u mod 1000000000) \<le> 2 ^ 63"
  shows "parse_groups d (fmt_seconds u) = Some (d + (u div 1000000000 mod 60 * 1000000000 + u mod 1000000000))"
  using parse_groups_printed [OF unit_chars(4) unit_values(4), of "u mod 1000000000" "[]" d "u div 1000000000 mod 60"] assms
  by (simp add: fmt_seconds_def)

lemma group_rest_seconds [simp]: "group_rest (fmt_seconds u)"
  by (simp add: fmt_seconds_def)

lemma seconds_split:
  fixes u :: nat
  defines "hours \<equiv> u div 3600000000000" and "mins \<equiv> u div 60000000000 mod 60"
  shows "hours * 3600000000000 + mins * 60000000000 + (u div 1000000000 mod 60 * 1000000000 + u mod 1000000000) = u"
proof -
  have "u div 3600000000000 = u div 60000000000 div 60" "u div 60000000000 = u div 1000000000 div 60"
    by (simp_all flip: div_mult2_eq)
  then have "hours * 60 + mins = u div 60000000000" "u div 60000000000 * 60 + u div 1000000000 mod 60 = u div 1000000000"
    by (simp_all add: hours_def mins_def)
  then show ?thesis using div_mult_mod_eq [of u 1000000000] by linarith
qed

lemma parse_minutes:
  assumes "d + (m * 60000000000 + (u div 1000000000 mod 60 * 1000000000 + u mod 1000000000)) \<le> 2 ^ 63"
  shows "parse_groups d (digits_of m @ ''m'' @ fmt_seconds u)
    = Some (d + (m * 60000000000 + (u div 1000000000 mod 60 * 1000000000 + u mod 1000000000)))"
  using parse_groups_printed [OF unit_chars(5) unit_values(5), of 0 "fmt_seconds u" d m]
    parse_seconds [of "d + m * 60000000000" u] assms
  by simp

lemma parse_hours:
  assumes "u \<le> 2 ^ 63"
  shows "parse_groups 0 (digits_of (u div 3600000000000) @ ''h'' @ digits_of (u div 60000000000 mod 60) @ ''m'' @ fmt_seconds u) = Some u"
proof -
  note split = seconds_split [of u]
  have small: "u div 3600000000000 * 3600000000000 \<le> 2 ^ 63" using assms split by linarith
  have "parse_groups 0 (digits_of (u div 3600000000000) @ ''h'' @ (digits_of (u div 60000000000 mod 60) @ ''m'' @ fmt_seconds u))
      = parse_groups (u div 3600000000000 * 3600000000000) (digits_of (u div 60000000000 mod 60) @ ''m'' @ fmt_seconds u)"
    using parse_groups_printed [OF unit_chars(6) unit_values(6), of 0
        "digits_of (u div 60000000000 mod 60) @ ''m'' @ fmt_seconds u" 0 "u div 3600000000000"] small
    by simp
  also have "\<dots> = Some u"
    using parse_minutes [of "u div 3600000000000 * 3600000000000" "u div 60000000000 mod 60" u] assms split
    by (simp only: add.assoc)
  finally show ?thesis by simp
qed

lemma char_zero: "char_of (48 :: nat) = CHR ''0''"
  by (simp add: char_of_eq_iff)

lemma parse_fmt_duration:
  assumes "u \<le> 2 ^ 63"
  shows "parse_groups 0 (fmt_duration u) = Some u"
proof -
  consider "u = 0" | "0 < u" "u < 1000" | "1000 \<le> u" "u < 1000000" | "1000000 \<le> u" "u < 1000000000" | "1000000000 \<le> u"
    by linarith
  then show ?thesis
  proof cases
    case 1
    then show ?thesis using parse_seconds [of 0 0]
      by (simp add: fmt_duration_def fmt_seconds_def frac_def trim_zeros_def digits_of.simps digit_def char_zero)
  next
    case 2
    then show ?thesis using parse_groups_printed [OF unit_chars(1) unit_values(1), of 0 "[]" 0 u] assms
      by (simp add: fmt_duration_def)
  next
    case 3
    then show ?thesis
      using parse_groups_printed [OF unit_chars(2) unit_values(2), of "u mod 1000" "[]" 0 "u div 1000"] assms
      by (simp add: fmt_duration_def)
  next
    case 4
    then show ?thesis
      using parse_groups_printed [OF unit_chars(3) unit_values(3), of "u mod 1000000" "[]" 0 "u div 1000000"] assms
      by (simp add: fmt_duration_def)
  next
    case 5
    note split = seconds_split [of u]
    have "u div 3600000000000 = u div 60000000000 div 60" by (simp flip: div_mult2_eq)
    then have "u div 60000000000 = 0 \<Longrightarrow> u div 3600000000000 = 0" by simp
    then consider "u div 3600000000000 \<noteq> 0" "u div 60000000000 \<noteq> 0"
      | "u div 3600000000000 = 0" "u div 60000000000 \<noteq> 0" | "u div 3600000000000 = 0" "u div 60000000000 = 0"
      by metis
    then show ?thesis
    proof cases
      case 1
      with 5 parse_hours [OF assms] show ?thesis by (simp add: fmt_duration_def Let_def)
    next
      case 2
      with 5 split assms parse_minutes [of 0 "u div 60000000000 mod 60" u] show ?thesis
        by (simp add: fmt_duration_def Let_def)
    next
      case 3
      with 5 split assms parse_seconds [of 0 u] show ?thesis by (simp add: fmt_duration_def Let_def)
    qed
  qed
qed

lemma last_fmt_duration: "fmt_duration u \<noteq> []" "last (fmt_duration u) = CHR ''s''"
  by (simp_all add: fmt_duration_def Let_def fmt_seconds_def micro_def)

lemma hd_fmt_duration: "is_digit (hd (fmt_duration u))"
proof -
  have "is_digit CHR ''0''" by (simp add: is_digit_def digit_val_def)
  then show ?thesis using hd_digits_of
    by (simp add: fmt_duration_def Let_def fmt_seconds_def)
qed

lemma ParseDuration_String:
  assumes "in_int64 d"
  shows "ParseDuration (Duration_String d) = Some d"
proof -
  have range: "nat \<bar>d\<bar> \<le> 2 ^ 63" using assms by (auto simp: in_int64_def)
  have hd: "hd (fmt_duration u) \<noteq> CHR ''-''" "hd (fmt_duration u) \<noteq> CHR ''+''" for u
    using hd_fmt_duration [of u] by (auto simp: is_digit_def)
  have "fmt_duration u \<noteq> ''0''" for u using last_fmt_duration(2) [of u] by auto
  with hd parse_fmt_duration [OF range] assms last_fmt_duration(1) show ?thesis
    by (cases "d < 0") (auto simp: Duration_String_def ParseDuration_def split_sign_def in_int64_def)
qed

end
