(* ===== verification/GoUrl.thy ===== *)
theory GoUrl
  imports GoDuration
begin

text \<open>
  What the programs use of Go's \<open>net/url\<close>: the raw query of a URL, and the lookup of one of
  its parameters. Strings without the characters that mean something in a URL pass through
  both unchanged.
\<close>

section \<open>net/url\<close>

text \<open>\<open>URL.RawQuery\<close>: what is between the first question mark and the fragment.\<close>

definition raw_query :: "string \<Rightarrow> string" where
  "raw_query url = tl (dropWhile (\<lambda>c. c \<noteq> CHR ''?'') (takeWhile (\<lambda>c. c \<noteq> CHR ''#'') url))"

definition hex_val :: "char \<Rightarrow> nat option" where
  "hex_val c = (let k = of_char c in
     if 48 \<le> k \<and> k < 58 then Some (k - 48) else if 97 \<le> k \<and> k < 103 then Some (k - 87)
     else if 65 \<le> k \<and> k < 71 then Some (k - 55) else None)"

text \<open>\<open>QueryUnescape\<close>, with \<open>None\<close> for an error.\<close>

fun unescape :: "string \<Rightarrow> string option" where
  "unescape [] = Some []"
| "unescape (c # cs) =
     (if c = CHR ''%'' then
        (case cs of
           a # b # rest \<Rightarrow>
             (case (hex_val a, hex_val b) of
                (Some x, Some y) \<Rightarrow> map_option (\<lambda>s. char_of (16 * x + y) # s) (unescape rest)
              | _ \<Rightarrow> None)
         | _ \<Rightarrow> None)
      else map_option (\<lambda>s. (if c = CHR ''+'' then CHR '' '' else c) # s) (unescape cs))"

fun split_on :: "char \<Rightarrow> string \<Rightarrow> string list" where
  "split_on c [] = [[]]"
| "split_on c (x # xs) =
     (if x = c then [] # split_on c xs
      else (case split_on c xs of [] \<Rightarrow> [[x]] | p # ps \<Rightarrow> (x # p) # ps))"

text \<open>One setting: skipped when empty, when it has a semicolon, or when it does not unescape.\<close>

definition parse_pair :: "string \<Rightarrow> (string \<times> string) option" where
  "parse_pair s =
     (if s = [] \<or> CHR '';'' \<in> set s then None
      else (case (unescape (takeWhile (\<lambda>c. c \<noteq> CHR ''='') s), unescape (tl (dropWhile (\<lambda>c. c \<noteq> CHR ''='') s))) of
              (Some k, Some v) \<Rightarrow> Some (k, v)
            | _ \<Rightarrow> None))"

text \<open>\<open>URL.Query().Get\<close>: the first value of the key, or the empty string.\<close>

definition query_get :: "string \<Rightarrow> string \<Rightarrow> string" where
  "query_get raw key =
     (case map_of (List.map_filter parse_pair (split_on (CHR ''&'') raw)) key of None \<Rightarrow> [] | Some v \<Rightarrow> v)"

section \<open>Plain strings\<close>

definition plain :: "char \<Rightarrow> bool" where
  "plain c \<longleftrightarrow> c \<notin> set ''%+;&=?#''"

lemma plain_digit: "is_digit c \<Longrightarrow> plain c"
  by (auto simp: plain_def is_digit_def digit_val_def Let_def)

lemma plain_digits: "list_all plain (digits_of n)"
  using digits_of_digits [of n] plain_digit by (auto simp: list_all_iff)

lemma plain_Itoa: "list_all plain (Itoa n)"
  by (simp add: Itoa_def plain_digits plain_def)

lemma plain_frac: "r < 10 ^ k \<Longrightarrow> list_all plain (frac k r)"
  using trimmed_value(3) [of r k] plain_digit by (auto simp: frac_def Let_def list_all_iff plain_def)

lemma plain_Duration: "list_all plain (Duration_String d)"
  by (auto simp: Duration_String_def fmt_duration_def fmt_seconds_def Let_def plain_digits plain_frac micro_def plain_def)

lemma unescape_plain: "list_all plain s \<Longrightarrow> unescape s = Some s"
  by (induction s) (auto simp: plain_def)

lemma split_on_append: "c \<notin> set xs \<Longrightarrow> split_on c (xs @ c # ys) = xs # split_on c ys"
  by (induction xs) auto

lemma split_on_none: "c \<notin> set xs \<Longrightarrow> split_on c xs = [xs]"
  by (induction xs) auto

lemma parse_pair_plain:
  assumes "list_all plain k" and "list_all plain v"
  shows "parse_pair (k @ CHR ''='' # v) = Some (k, v)"
proof -
  have k: "\<forall>c\<in>set k. c \<noteq> CHR ''=''" "CHR '';'' \<notin> set k" and v: "CHR '';'' \<notin> set v"
    using assms by (auto simp: list_all_iff plain_def)
  then show ?thesis
    using assms by (simp add: parse_pair_def unescape_plain takeWhile_append2 dropWhile_append2)
qed

lemma plain_no_amp: "list_all plain s \<Longrightarrow> CHR ''&'' \<notin> set s"
  by (auto simp: list_all_iff plain_def)

lemma query_two:
  assumes "list_all plain k" "list_all plain v" "list_all plain k'" "list_all plain v'"
  shows "query_get (k @ CHR ''='' # v @ CHR ''&'' # k' @ CHR ''='' # v') key = (if key = k then v else if key = k' then v' else [])"
proof -
  have n: "CHR ''&'' \<notin> set (k @ CHR ''='' # v)" "CHR ''&'' \<notin> set (k' @ CHR ''='' # v')"
    using assms [THEN plain_no_amp] by simp_all
  have "split_on (CHR ''&'') (k @ CHR ''='' # v @ CHR ''&'' # k' @ CHR ''='' # v') = [k @ CHR ''='' # v, k' @ CHR ''='' # v']"
    using split_on_append [OF n(1), of "k' @ CHR ''='' # v'"] split_on_none [OF n(2)]
    by (simp only: append_assoc append_Cons)
  then show ?thesis
    by (simp add: query_get_def parse_pair_plain [OF assms(1,2)] parse_pair_plain [OF assms(3,4)] List.map_filter_simps)
qed

lemma cut_at:
  "x \<notin> set s \<Longrightarrow> takeWhile (\<lambda>c. c \<noteq> x) s = s"
  "x \<notin> set s \<Longrightarrow> dropWhile (\<lambda>c. c \<noteq> x) (s @ x # q) = x # q"
  by (induction s) auto

lemma raw_query_url:
  assumes "CHR ''?'' \<notin> set base" and "CHR ''#'' \<notin> set (base @ CHR ''?'' # q)"
  shows "raw_query (base @ CHR ''?'' # q) = q"
  unfolding raw_query_def cut_at(1) [OF assms(2)] cut_at(2) [OF assms(1)] by simp

end
