(* ===== verification/GoFmt.thy ===== *)
theory GoFmt
  imports GoDuration
begin

text \<open>
  What the programs use of Go's \<open>fmt\<close> and \<open>html\<close>: the verbs \<open>%.2f\<close> and \<open>%03d\<close>, formats without
  arguments, and the escape of
  the five characters that mean something in HTML, with its inverse.
\<close>

section \<open>Numbers\<close>

text \<open>\<open>%.2f\<close> of a number that is not negative: hundredths, rounded to the nearest.\<close>

definition fmt2 :: "rat \<Rightarrow> string" where
  "fmt2 x = (let c = \<lfloor>100 * x + 1 / 2\<rfloor> in Itoa (c div 100) @ ''.'' @ Itoa (c mod 100 div 10) @ Itoa (c mod 10))"

text \<open>\<open>%03d\<close>: at least three characters, a sign included, with zeros after the sign.\<close>

definition fmt03d :: "int \<Rightarrow> string" where
  "fmt03d n =
     (let ds = digits_of (nat \<bar>n\<bar>); sg = (if n < 0 then ''-'' else [])
      in sg @ replicate (3 - length sg - length ds) (digit 0) @ ds)"

section \<open>log.Printf\<close>

text \<open>
  \<open>log.Printf\<close> with a format and no arguments prints the format when no percent sign is in
  it, and otherwise something else (\<open>None\<close>).
\<close>

definition Printf0 :: "string \<Rightarrow> string option" where
  "Printf0 format = (if CHR ''%'' \<in> set format then None else Some format)"

lemma digits_of_no_percent: "CHR ''%'' \<notin> set (digits_of n)"
  using digits_of_chars [of "CHR ''%''" n] by (auto simp: digit_val_def Let_def)

lemma Itoa_no_percent: "CHR ''%'' \<notin> set (Itoa n)"
  by (simp add: Itoa_def digits_of_no_percent)

section \<open>html.EscapeString\<close>

definition esc_char :: "char \<Rightarrow> string" where
  "esc_char c =
     (if c = CHR ''&'' then ''&amp;''
      else if c = CHR 0x27 then ''&#39;''
      else if c = CHR ''<'' then ''&lt;''
      else if c = CHR ''>'' then ''&gt;''
      else if c = CHR 0x22 then ''&#34;''
      else [c])"

definition EscapeString :: "string \<Rightarrow> string" where
  "EscapeString s = concat (map esc_char s)"

text \<open>What a reader makes of the five entities.\<close>

definition entities :: "(string \<times> char) list" where
  "entities = [(''&amp;'', CHR ''&''), (''&#39;'', CHR 0x27), (''&lt;'', CHR ''<''), (''&gt;'', CHR ''>''), (''&#34;'', CHR 0x22)]"

definition entity_at :: "string \<Rightarrow> (string \<times> char) option" where
  "entity_at s = find (\<lambda>e. take (length (fst e)) s = fst e) entities"

function html_unescape :: "string \<Rightarrow> string" where
  "html_unescape [] = []"
| "html_unescape (c # cs) =
     (case entity_at (c # cs) of
        Some (e, x) \<Rightarrow> x # html_unescape (drop (length e - 1) cs)
      | None \<Rightarrow> c # html_unescape cs)"
  by pat_completeness auto
termination by (relation "measure length") auto

text \<open>The characters that would be markup.\<close>

definition markup :: "char \<Rightarrow> bool" where
  "markup c \<longleftrightarrow> c = CHR ''<'' \<or> c = CHR ''>'' \<or> c = CHR 0x22 \<or> c = CHR 0x27"

lemma EscapeString_simps [simp]:
  "EscapeString [] = []" "EscapeString (c # s) = esc_char c @ EscapeString s"
  "EscapeString (s @ s') = EscapeString s @ EscapeString s'"
  by (simp_all add: EscapeString_def)

lemma EscapeString_no_markup: "list_all (\<lambda>c. \<not> markup c) (EscapeString s)"
  by (induction s) (auto simp: esc_char_def markup_def)

lemma entity_at_esc:
  "entity_at (esc_char c @ s) = (if esc_char c = [c] then None else Some (esc_char c, c))"
  by (auto simp: entity_at_def entities_def esc_char_def)

lemma html_unescape_esc: "html_unescape (esc_char c @ s) = c # html_unescape s"
proof (cases "esc_char c = [c]")
  case True
  then show ?thesis using entity_at_esc [of c s] by simp
next
  case False
  then obtain x xs where x: "esc_char c = x # xs" by (cases "esc_char c") (auto simp: esc_char_def split: if_splits)
  with False entity_at_esc [of c s] show ?thesis by simp
qed

lemma html_unescape_EscapeString: "html_unescape (EscapeString s) = s"
  by (induction s) (simp_all add: html_unescape_esc)

section \<open>Words\<close>

text \<open>
  The characters of the numbers and durations in a report: neither a separator of its
  fields or lines nor a character that is escaped or starts a verb.
\<close>

definition word_char :: "char \<Rightarrow> bool" where
  "word_char c \<longleftrightarrow> c \<noteq> CHR '' '' \<and> c \<noteq> CHR '':'' \<and> c \<noteq> CHR ''&'' \<and> c \<noteq> CHR ''%''
     \<and> c \<noteq> CHR 0x0A \<and> \<not> markup c"

lemma EscapeString_words: "list_all word_char s \<Longrightarrow> EscapeString s = s"
  by (induction s) (auto simp: esc_char_def word_char_def markup_def)

lemma word_digit: "digit_val c \<noteq> None \<Longrightarrow> word_char c"
  by (auto simp: word_char_def markup_def digit_val_def Let_def)

lemma word_digits_of: "list_all word_char (digits_of n)"
  using digits_of_chars [of _ n] word_digit by (auto simp: list_all_iff)

lemma word_literals [simp]: "word_char CHR ''-''" "word_char CHR ''.''" "word_char (digit 0)"
  by (simp_all add: word_char_def markup_def digit_def char_of_eq_iff)

lemma word_Itoa [simp]: "list_all word_char (Itoa n)"
  by (simp add: Itoa_def word_digits_of)

lemma word_fmt2 [simp]: "list_all word_char (fmt2 x)"
  by (simp add: fmt2_def Let_def)

lemma list_all_replicate: "P x \<Longrightarrow> list_all P (replicate n x)"
  by (simp add: list_all_iff)

lemma word_fmt03d [simp]: "list_all word_char (fmt03d n)"
  by (simp add: fmt03d_def Let_def word_digits_of list_all_replicate)

lemma word_Duration [simp]: "list_all word_char (Duration_String d)"
proof -
  have frac: "list_all word_char (frac k (u mod 10 ^ k))" for k u
    using trimmed_value(3) [of "u mod 10 ^ k" k] word_digit
    by (auto simp: frac_def Let_def list_all_iff is_digit_def)
  have units: "word_char CHR ''n''" "word_char CHR ''m''" "word_char CHR ''s''" "word_char CHR ''h''" "word_char CHR ''0''"
    "list_all word_char micro"
    by (simp_all add: word_char_def markup_def micro_def)
  have "list_all word_char (fmt_duration u)" for u
    using frac [of 3 u] frac [of 6 u] frac [of 9 u]
    by (simp add: fmt_duration_def fmt_seconds_def Let_def word_digits_of units)
  then show ?thesis by (simp add: Duration_String_def)
qed

lemma Itoa_ne [simp]: "Itoa n \<noteq> []"
  by (simp add: Itoa_def)

lemma fmt2_ne [simp]: "fmt2 x \<noteq> []"
  by (simp add: fmt2_def Let_def)

lemma fmt03d_ne [simp]: "fmt03d n \<noteq> []"
  by (simp add: fmt03d_def Let_def)

end
