(* ===== verification/SpinReply.thy ===== *)
theory SpinReply
  imports SpinQueue GoUrl GoFmt
begin

text \<open>
  The text of a reply of \<open>kubernetes/elasticity/cmd/spinhttpsrv/main.go\<close>: \<open>request.String\<close>, its
  escape, and what can be read back from it; and that the reply of a handler is about the
  handler's own request, in every interleaving of handlers and workers.
\<close>

section \<open>The code\<close>

text \<open>\<open>now\<close> is the clock in nanoseconds, for \<open>time.Since(r.start)\<close>.\<close>

definition ten_ms :: int where "ten_ms = 10 * Millisecond"

definition request_String :: "int \<Rightarrow> request \<Rightarrow> string" where
  "request_String now r =
     (if rq_isDone r then
        ''&{ id:'' @ rq_id r @ '' replica_id:'' @ fmt03d (rq_replicaID r) @ '' rps:'' @ fmt2 (rq_rps r)
        @ '' dur:'' @ Duration_String (Duration_Round (rq_dur r) ten_ms)
        @ '' q_lat:'' @ Duration_String (Duration_Round (rq_qlat r) ten_ms)
        @ '' e2e_lat:'' @ Duration_String (Duration_Round (now - rq_start r) ten_ms)
        @ '' qlen_start:'' @ Itoa (rq_qlenStart r) @ '' qlen_finish:'' @ Itoa (rq_qlenFinish r) @ '' }''
      else ''&{ id:'' @ rq_id r @ '' dur:'' @ Duration_String (rq_dur r) @ '' }'')"

text \<open>The end of \<open>spinHandler\<close>.\<close>

definition spin_reply :: "int \<Rightarrow> request \<Rightarrow> response \<Rightarrow> response" where
  "spin_reply now r w = write_body (''Done spin '' @ EscapeString (request_String now r) @ [CHR 0x0A]) w"

section \<open>Reading a reply\<close>

text \<open>A field of a reply: the text is unescaped and cut at its spaces, and a field at its first colon.\<close>

definition cut_field :: "string \<Rightarrow> string \<times> string" where
  "cut_field tok = (takeWhile (\<lambda>c. c \<noteq> CHR '':'') tok, tl (dropWhile (\<lambda>c. c \<noteq> CHR '':'') tok))"

definition reply_field :: "string \<Rightarrow> string \<Rightarrow> string option" where
  "reply_field text key = map_of (map cut_field (split_on (CHR '' '') (html_unescape text))) key"

lemma word_no_space: "list_all word_char s \<Longrightarrow> CHR '' '' \<notin> set s"
  by (auto simp: list_all_iff word_char_def)

lemma split_words:
  "list_all word_char s \<Longrightarrow> split_on (CHR '' '') (s @ CHR '' '' # rest) = s # split_on (CHR '' '') rest"
  by (simp add: split_on_append word_no_space)

lemma cut_field_key:
  "CHR '':'' \<notin> set k \<Longrightarrow> cut_field (k @ CHR '':'' # v) = (k, v)"
  by (induction k) (auto simp: cut_field_def)

lemma html_unescape_reply: "html_unescape (''Done spin '' @ EscapeString s @ [CHR 0x0A]) = ''Done spin '' @ s @ [CHR 0x0A]"
proof -
  have "''Done spin '' @ EscapeString s @ [CHR 0x0A] = EscapeString (''Done spin '' @ s @ [CHR 0x0A])"
    by (simp add: esc_char_def)
  then show ?thesis by (simp only: html_unescape_EscapeString)
qed

text \<open>The fields of a finished request, when its ID has no space.\<close>

lemma reply_fields:
  assumes "rq_isDone r" and "CHR '' '' \<notin> set (rq_id r)"
  shows "map cut_field (split_on (CHR '' '') (''Done spin '' @ request_String now r @ [CHR 0x0A])) =
    [(''Done'', []), (''spin'', []), (''&{'', []), (''id'', rq_id r), (''replica_id'', fmt03d (rq_replicaID r)),
     (''rps'', fmt2 (rq_rps r)),
     (''dur'', Duration_String (Duration_Round (rq_dur r) ten_ms)),
     (''q_lat'', Duration_String (Duration_Round (rq_qlat r) ten_ms)),
     (''e2e_lat'', Duration_String (Duration_Round (now - rq_start r) ten_ms)),
     (''qlen_start'', Itoa (rq_qlenStart r)), (''qlen_finish'', Itoa (rq_qlenFinish r)), (''}'' @ [CHR 0x0A], [])]"
proof -
  have cut: "cut_field (''id:'' @ v) = (''id'', v)" "cut_field (''replica_id:'' @ v) = (''replica_id'', v)"
    "cut_field (''rps:'' @ v) = (''rps'', v)" "cut_field (''dur:'' @ v) = (''dur'', v)"
    "cut_field (''q_lat:'' @ v) = (''q_lat'', v)" "cut_field (''e2e_lat:'' @ v) = (''e2e_lat'', v)"
    "cut_field (''qlen_start:'' @ v) = (''qlen_start'', v)" "cut_field (''qlen_finish:'' @ v) = (''qlen_finish'', v)" for v
    by (simp_all add: cut_field_def)
  show ?thesis
    using assms cut by (simp add: request_String_def split_words split_on_append cut_field_def)
qed

lemma reply_field_text:
  "reply_field (body (spin_reply now r new_response)) key
     = map_of (map cut_field (split_on (CHR '' '') (''Done spin '' @ request_String now r @ [CHR 0x0A]))) key"
proof -
  have "body (spin_reply now r new_response) = ''Done spin '' @ EscapeString (request_String now r) @ [CHR 0x0A]"
    by (simp add: spin_reply_def write_body_def new_response_def)
  then show ?thesis by (simp only: reply_field_def html_unescape_reply)
qed

section \<open>A handler's reply is about its own request\<close>

definition about :: "(string \<Rightarrow> string) \<Rightarrow> request \<Rightarrow> bool" where
  "about query r \<longleftrightarrow> rq_id r = query ''id'' \<and> ParseDuration (query ''dur'') = Some (rq_dur r)"

fun own :: "(string \<Rightarrow> string) \<Rightarrow> hpc \<Rightarrow> request \<Rightarrow> bool" where
  "own query (HDone r') r = about query r'"
| "own query HIdle r = True"
| "own query (HRejected resp) r = True"
| "own query _ r = about query r"

definition all_own :: "(nat \<Rightarrow> string \<Rightarrow> string) \<Rightarrow> (nat \<Rightarrow> hpc) \<Rightarrow> (nat \<Rightarrow> request) \<Rightarrow> bool" where
  "all_own query h r \<longleftrightarrow> (\<forall>i. own (query i) (h i) (r i))"

lemma own_cong: "rq_id r = rq_id r' \<Longrightarrow> rq_dur r = rq_dur r' \<Longrightarrow> own query h r = own query h r'"
  by (cases h) (simp_all add: about_def)

lemma spinHandler_about: "spinHandler query ms s = Inr (r, s') \<Longrightarrow> about query r"
  by (auto simp: spinHandler_def Let_def about_def newRequest_def split: if_splits option.splits)

lemma own_frame [simp]:
  "own query h (enqueue_load q r) = own query h r" "own query h (worker_dequeue q r) = own query h r"
  "own query h (worker_finish q r) = own query h r" "own query h (request_done r) = own query h r"
  "own query h (r\<lparr>rq_rps := x\<rparr>) = own query h r"
  by (rule own_cong; simp add: enqueue_load_def worker_dequeue_def worker_finish_def request_done_def)+

lemma all_own_at:
  assumes "all_own query h r" and "h i = HNew \<or> h i = HCounted \<or> h i = HQueued \<or> h i = HWait"
  shows "about (query i) (r i)"
  using assms(1) [unfolded all_own_def, rule_format, of i] assms(2) by auto

lemma all_own_handler: "all_own query h r \<Longrightarrow> own (query i) x (r i) \<Longrightarrow> all_own query (h(i := x)) r"
  by (simp add: all_own_def)

lemma all_own_request: "all_own query h r \<Longrightarrow> (\<And>y. own (query i) y x = own (query i) y (r i)) \<Longrightarrow> all_own query h (r(i := x))"
  by (simp add: all_own_def)

lemma all_own_step: "q_step query n s t \<Longrightarrow> all_own query (hp s) (reqs s) \<Longrightarrow> all_own query (hp t) (reqs t)"
proof (induction rule: q_step.induct)
  case (q_arrive s i ms r sv')
  then show ?case using spinHandler_about [OF q_arrive(4)] by (simp add: all_own_def)
qed (auto intro!: all_own_handler all_own_request dest: all_own_at)

interpretation spo: machine_invariant "q_start slots" "q_step query n" "\<lambda>s. all_own query (hp s) (reqs s)"
  by unfold_locales (auto simp: all_own_def q_start_def dest: all_own_step)

section \<open>Properties\<close>

text \<open>
  C35. A reply cannot carry markup, whatever ID the caller has put into its query: no angle
  bracket and no quote is in the body, and what a reader makes of its entities is the report
  as the code has formatted it. The reply is sent with status 200.
\<close>

theorem reply_is_inert:
  "list_all (\<lambda>c. \<not> markup c) (body (spin_reply now r new_response))
   \<and> html_unescape (body (spin_reply now r new_response)) = ''Done spin '' @ request_String now r @ [CHR 0x0A]
   \<and> code (spin_reply now r new_response) = Some 200"
proof -
  have b: "spin_reply now r new_response = \<lparr>code = Some 200, body = ''Done spin '' @ EscapeString (request_String now r) @ [CHR 0x0A]\<rparr>"
    by (simp add: spin_reply_def write_body_def new_response_def)
  have "list_all (\<lambda>c. \<not> markup c) (''Done spin '' @ EscapeString (request_String now r) @ [CHR 0x0A])"
    using EscapeString_no_markup [of "request_String now r"] by (simp add: markup_def)
  with b show ?thesis by (simp only: response.simps html_unescape_reply simp_thms)
qed

text \<open>
  C14. A handler replies about its own request, in every interleaving of handlers and workers:
  a reader of the reply finds the ID of the handler's query, the duration of that query to
  within five milliseconds, and a queue length that counts the request itself and at most
  all requests. The ID is one without a space, as those of the load generator are.
\<close>

theorem reply_reads_back:
  fixes now :: int
  assumes "reach (q_start slots) (q_step query n) s" and "hp s i = HDone r" and "CHR '' '' \<notin> set (query i ''id'')"
  defines "text \<equiv> body (spin_reply now r new_response)"
  shows "reply_field text ''id'' = Some (query i ''id'')
    \<and> (\<exists>dur dstr d. ParseDuration (query i ''dur'') = Some dur \<and> reply_field text ''dur'' = Some dstr
         \<and> ParseDuration dstr = Some d \<and> \<bar>d - dur\<bar> \<le> 5 * Millisecond)
    \<and> (\<exists>q. reply_field text ''qlen_start'' = Some (Itoa q) \<and> 1 \<le> q \<and> q \<le> int n)"
proof -
  have own: "rq_id r = query i ''id''" "ParseDuration (query i ''dur'') = Some (rq_dur r)"
    using spo.reach_inv [OF assms(1)] assms(2) by (auto simp: all_own_def about_def dest: spec [of _ i])
  have "handler_knows (workers s) n (hp s i) (reqs s i)"
    using spq.reach_inv [OF assms(1)] by (simp add: q_inv_def filled_def)
  then have ok: "rq_isDone r" "1 \<le> rq_qlenStart r" "rq_qlenStart r \<le> int n"
    using assms(2) by (simp_all add: reply_ok_def)
  have fields: "reply_field text ''id'' = Some (rq_id r)" "reply_field text ''qlen_start'' = Some (Itoa (rq_qlenStart r))"
    "reply_field text ''dur'' = Some (Duration_String (Duration_Round (rq_dur r) ten_ms))"
    unfolding text_def reply_field_text using reply_fields [OF ok(1), of now] assms(3) own(1) by simp_all
  have "in_int64 (rq_dur r)" using own(2) by (rule ParseDuration_range)
  then have "2 * \<bar>Duration_Round (rq_dur r) ten_ms - rq_dur r\<bar> \<le> ten_ms \<and> in_int64 (Duration_Round (rq_dur r) ten_ms)"
    by (rule Duration_Round_close) (simp_all add: ten_ms_def Millisecond_def)
  with own ok fields ParseDuration_String show ?thesis by (auto simp: ten_ms_def)
qed

theorem reply_reads_back_witness:
  "\<exists>(s :: sys) r. hp s 0 = HDone r \<and> reply_field (body (spin_reply 0 r new_response)) ''id'' = Some ''1''
    \<and> (\<exists>q. reply_field (body (spin_reply 0 r new_response)) ''qlen_start'' = Some (Itoa q) \<and> q = 1)"
proof -
  obtain s r where s: "reach (q_start 2) (q_step demo_query 1) s" "hp s 0 = HDone r"
    using demo_done by blast
  have "CHR '' '' \<notin> set (demo_query 0 ''id'')" "demo_query 0 ''id'' = ''1''" by (simp_all add: demo_query_def)
  with reply_reads_back [OF s, of 0] s(2) show ?thesis by fastforce
qed

end
