(* ===== verification/LoadPath.thy ===== *)
theory LoadPath
  imports LoadStats LBProps SpinReply
begin

text \<open>
  The way of a request through the three programs of \<open>kubernetes/elasticity\<close>: the load
  generator writes a duration and an ID into a URL, the load balancer copies the query of
  the URL into the one for the backend, the web server reads the duration and the ID from it,
  and its reply goes back the same way.
\<close>

section \<open>The way of a request\<close>

definition load_query :: "int \<Rightarrow> int \<Rightarrow> string" where
  "load_query dur rid = ''dur='' @ Duration_String dur @ ''&id='' @ Itoa rid"

lemma raw_query_spin:
  assumes "CHR ''?'' \<notin> set addr" and "CHR ''#'' \<notin> set addr"
  shows "raw_query (''http://'' @ addr @ ''/spin?'' @ load_query dur rid) = load_query dur rid"
proof -
  have "CHR ''#'' \<notin> set (load_query dur rid)"
    using plain_Duration [of dur] plain_Itoa [of rid] by (auto simp: load_query_def list_all_iff plain_def)
  then show ?thesis
    using raw_query_url [of "''http://'' @ addr @ ''/spin''" "load_query dur rid"] assms by simp
qed

lemma request_url_spin:
  "request_url (baseurl addr (Duration_String dur)) rid = ''http://'' @ addr @ ''/spin?'' @ load_query dur rid"
  by (simp add: request_url_def baseurl_def load_query_def)

lemma load_query_get:
  "query_get (load_query dur rid) key
     = (if key = ''dur'' then Duration_String dur else if key = ''id'' then Itoa rid else [])"
  using query_two [OF _ plain_Duration [of dur] _ plain_Itoa [of rid], of "''dur''" "''id''"]
  by (simp add: plain_def load_query_def)

lemma spinHandler_load_query:
  assumes "in_int64 dur"
  shows "spinHandler (query_get (load_query dur rid)) ms s
    = Inr (newRequest (int ms * Millisecond) (replicaID s) (Itoa rid) dur, updateRequestRate ms s)"
proof -
  have "Duration_String dur \<noteq> []" "Itoa rid \<noteq> []"
    by (simp_all add: Duration_String_def last_fmt_duration Itoa_def)
  moreover have "replicaID (updateRequestRate ms s) = replicaID s"
    by (simp add: updateRequestRate_def maybeClearRequestRateL_def Let_def)
  ultimately show ?thesis
    by (simp add: spinHandler_def load_query_get ParseDuration_String [OF assms] Let_def)
qed

text \<open>
  A backend as the load balancer sees it: the body of the reply to a GET of a URL. \<open>work\<close> is
  what the queue and the worker make of a request, and \<open>now\<close> the time of the reply.
\<close>

definition spin_backend :: "(request \<Rightarrow> request) \<Rightarrow> int \<Rightarrow> nat \<Rightarrow> srv \<Rightarrow> string \<Rightarrow> string + string \<times> string option" where
  "spin_backend work now ms s url =
     (case spinHandler (query_get (raw_query url)) ms s of
        Inl resp \<Rightarrow> Inr (body resp, None)
      | Inr (r, s') \<Rightarrow> Inr (body (spin_reply now (work r) new_response), None))"

text \<open>A served request is the same request, marked done; the workers of \<open>SpinQueue\<close> keep to this.\<close>

definition served :: "request \<Rightarrow> request \<Rightarrow> bool" where
  "served r r' \<longleftrightarrow> rq_isDone r' \<and> rq_id r' = rq_id r \<and> rq_dur r' = rq_dur r \<and> rq_replicaID r' = rq_replicaID r"

definition serve :: "int \<Rightarrow> int \<Rightarrow> int \<Rightarrow> rat \<Rightarrow> request \<Rightarrow> request" where
  "serve now q q' rate r = request_done (worker_finish q' ((worker_dequeue now (enqueue_load q r))\<lparr>rq_rps := rate\<rparr>))"

lemma served_serve: "served r (serve now q q' rate r)"
  by (simp add: served_def serve_def enqueue_load_def worker_dequeue_def worker_finish_def request_done_def)

lemma reply_fields_served:
  assumes "served r r'" and "CHR '' '' \<notin> set (rq_id r)"
  shows "reply_field (body (spin_reply now r' new_response)) ''id'' = Some (rq_id r)"
    and "reply_field (body (spin_reply now r' new_response)) ''replica_id'' = Some (fmt03d (rq_replicaID r))"
    and "reply_field (body (spin_reply now r' new_response)) ''dur''
      = Some (Duration_String (Duration_Round (rq_dur r) ten_ms))"
  using assms reply_fields [of r' now] by (simp_all add: reply_field_text served_def)

section \<open>Properties\<close>

text \<open>
  C9. A request of the load generator arrives as it was meant, and so does its reply. For
  every duration and ID, the server and port given to the load generator and those of the
  pods being free of question marks and hashes, the load balancer asks the pod it has picked
  with a URL from which the web server's handler makes a request with exactly that ID and
  that duration; and what the load generator receives is that pod's reply, with status 200,
  in which the ID, the replica and the duration to within five milliseconds can be read.
\<close>

theorem load_request_arrives:
  assumes "in_int64 dur" and "CHR ''?'' \<notin> set addr" and "CHR ''#'' \<notin> set addr"
    and "getBackendPodAddr order lb = Inr (pod, lb')" and "CHR ''?'' \<notin> set pod" and "CHR ''#'' \<notin> set pod"
    and "\<And>r. served r (work r)"
  shows "\<exists>text. lbHandler (spin_backend work now ms s) order (raw_query (request_url (baseurl addr (Duration_String dur)) rid)) lb
      = Inr (\<lparr>code = Some 200, body = text\<rparr>, putBackendPodAddr pod lb')
    \<and> text = body (spin_reply now (work (newRequest (int ms * Millisecond) (replicaID s) (Itoa rid) dur)) new_response)
    \<and> reply_field text ''id'' = Some (Itoa rid)
    \<and> reply_field text ''replica_id'' = Some (fmt03d (replicaID s))
    \<and> (\<exists>dstr d. reply_field text ''dur'' = Some dstr \<and> ParseDuration dstr = Some d \<and> \<bar>d - dur\<bar> \<le> 5 * Millisecond)"
proof -
  let ?r = "newRequest (int ms * Millisecond) (replicaID s) (Itoa rid) dur"
  let ?text = "body (spin_reply now (work ?r) new_response)"
  have q: "raw_query (request_url (baseurl addr (Duration_String dur)) rid) = load_query dur rid"
    by (simp only: request_url_spin raw_query_spin [OF assms(2,3)])
  have "spin_backend work now ms s (''http://'' @ pod @ ''/spin?'' @ load_query dur rid) = Inr (?text, None)"
    by (simp only: spin_backend_def raw_query_spin [OF assms(5,6)] spinHandler_load_query [OF assms(1)] sum.case prod.case)
  then have "lbHandler (spin_backend work now ms s) order (load_query dur rid) lb = Inr (write_body ?text new_response, putBackendPodAddr pod lb')"
    by (simp only: lbHandler_def assms(4) sum.case prod.case Let_def option.case)
  moreover have "write_body ?text new_response = \<lparr>code = Some 200, body = ?text\<rparr>"
    by (simp add: spin_reply_def write_body_def new_response_def)
  moreover have "CHR '' '' \<notin> set (rq_id ?r)" by (simp add: newRequest_def word_no_space)
  note fields = reply_fields_served [OF assms(7) [of ?r] this, of now]
  moreover have "2 * \<bar>Duration_Round dur ten_ms - dur\<bar> \<le> ten_ms \<and> in_int64 (Duration_Round dur ten_ms)"
    using assms(1) by (rule Duration_Round_close) (simp_all add: ten_ms_def Millisecond_def)
  ultimately show ?thesis
    using ParseDuration_String [of "Duration_Round dur ten_ms"]
    by (intro exI [of _ ?text]) (simp add: q newRequest_def ten_ms_def)
qed

theorem load_request_arrives_witness:
  "\<exists>text. lbHandler (spin_backend (serve 20 1 0 (3 / 5)) 3000000000 0 (newSrv 7 2)) []
       (raw_query (request_url (baseurl ''lb:8080'' (Duration_String 1500000000)) 42))
       \<lparr>t = LB_RR, podIPs = [''10.0.0.3''], outstandingReqs = Map.empty, idx = 0\<rparr>
     = Inr (\<lparr>code = Some 200, body = text\<rparr>,
       \<lparr>t = LB_RR, podIPs = [''10.0.0.3''], outstandingReqs = [''10.0.0.3:8080'' \<mapsto> - 1], idx = 1\<rparr>)
     \<and> reply_field text ''id'' = Some ''42'' \<and> reply_field text ''replica_id'' = Some ''007''"
proof -
  let ?lb = "\<lparr>t = LB_RR, podIPs = [''10.0.0.3''], outstandingReqs = Map.empty, idx = 0\<rparr>"
  have pick: "getBackendPodAddr [] ?lb = Inr (''10.0.0.3:8080'', ?lb\<lparr>idx := 1\<rparr>)"
    by (simp add: getBackendPodAddr_def getBackendPodAddrRR_def pod_addr_def smod_int_alt_def LB_RR_def)
  have "in_int64 1500000000" by (simp add: in_int64_def)
  moreover have "Itoa 42 = ''42''" "fmt03d 7 = ''007''"
    by (simp_all add: Itoa_def fmt03d_def digits_of.simps digit_def char_of_eq_iff numeral_2_eq_2 Let_def)
  ultimately show ?thesis
    using load_request_arrives [where work = "serve 20 1 0 (3 / 5)", OF _ _ _ pick _ _ served_serve,
        of 1500000000 "''lb:8080''" 3000000000 0 "newSrv 7 2" 42]
    by (auto simp: putBackendPodAddr_def map_add_def newSrv_def)
qed

text \<open>
  The load balancer does not pass on the status of a backend: a request that the web
  server refuses with status 400 is answered with status 200 and the text of the refusal.
\<close>

theorem LB_hides_refusal:
  assumes "getBackendPodAddr order lb = Inr (pod, lb')" and "CHR ''?'' \<notin> set pod" and "CHR ''#'' \<notin> set (pod @ raw)"
    and "spinHandler (query_get raw) ms s = Inl resp"
  shows "code resp = Some 400
    \<and> lbHandler (spin_backend work now ms s) order raw lb = Inr (\<lparr>code = Some 200, body = body resp\<rparr>, putBackendPodAddr pod lb')"
proof -
  have r: "code resp = Some 400" "body resp \<noteq> []"
    using assms(4) by (auto simp: spinHandler_def Let_def http_error_def new_response_def split: if_splits option.splits)
  have "raw_query (''http://'' @ pod @ ''/spin?'' @ raw) = raw"
    using raw_query_url [of "''http://'' @ pod @ ''/spin''" raw] assms(2,3) by simp
  then have "spin_backend work now ms s (''http://'' @ pod @ ''/spin?'' @ raw) = Inr (body resp, None)"
    by (simp only: spin_backend_def assms(4) sum.case)
  then have "lbHandler (spin_backend work now ms s) order raw lb = Inr (write_body (body resp) new_response, putBackendPodAddr pod lb')"
    by (simp only: lbHandler_def assms(1) sum.case prod.case Let_def option.case)
  with r show ?thesis by (simp add: write_body_def new_response_def)
qed

theorem LB_hides_refusal_witness:
  "lbHandler (spin_backend id 0 0 (newSrv 7 2)) [] ''dur=1s'' \<lparr>t = LB_RR, podIPs = [''10.0.0.3''], outstandingReqs = Map.empty, idx = 0\<rparr>
   = Inr (\<lparr>code = Some 200, body = ''Please specify request ID'' @ [CHR 0x0A]\<rparr>,
       \<lparr>t = LB_RR, podIPs = [''10.0.0.3''], outstandingReqs = [''10.0.0.3:8080'' \<mapsto> - 1], idx = 1\<rparr>)"
proof -
  let ?lb = "\<lparr>t = LB_RR, podIPs = [''10.0.0.3''], outstandingReqs = Map.empty, idx = 0\<rparr>"
  have pick: "getBackendPodAddr [] ?lb = Inr (''10.0.0.3:8080'', ?lb\<lparr>idx := 1\<rparr>)"
    by (simp add: getBackendPodAddr_def getBackendPodAddrRR_def pod_addr_def smod_int_alt_def LB_RR_def)
  have "query_get ''dur=1s'' ''id'' = []"
    by (simp add: query_get_def parse_pair_def List.map_filter_simps)
  then have "spinHandler (query_get ''dur=1s'') 0 (newSrv 7 2) = Inl (http_error ''Please specify request ID'' 400 new_response)"
    by (simp add: spinHandler_def)
  from LB_hides_refusal [OF pick _ _ this, of id 0] show ?thesis
    by (simp add: http_error_def new_response_def putBackendPodAddr_def map_add_def)
qed

end
