(* ===== verification/LoadRun.thy ===== *)
theory LoadRun
  imports LoadStats
begin

text \<open>
  A whole run of the load generator: \<open>TestLoadgen\<close>, the goroutines \<open>startRequests\<close> it starts
  every second, and the goroutines \<open>doRequest\<close> they start, with the wait group, the counter
  of IDs and the statistics they share. Times are milliseconds; what a request's GET returns
  and how long anything takes is open, except that main sleeps for a second. The pauses of
  \<open>startRequests\<close> are not enforced: the runs that keep them are among those here.
\<close>

section \<open>The goroutines\<close>

text \<open>
  A request: not started, sent at a time, answered (completion time and latency, not yet
  recorded), recorded or failed and about to return, gone. The flags tell whether the GET
  succeeded.
\<close>

datatype req_pc = RNone | RFlying int | RGot int int | RMarked bool | RGone bool

datatype main_pc = MLoop | MWait | MStopped

text \<open>
  \<open>wake\<close> is the end of main's sleep, \<open>starters\<close> has what each \<open>startRequests\<close> has still to start,
  \<open>comps\<close> what was recorded.
\<close>

record run =
  clock :: int
  began :: int
  wake :: int
  main :: main_pc
  wg :: int
  cnt :: nat
  starters :: "nat list"
  rpcs :: "nat \<Rightarrow> req_pc"
  stats :: Stats
  comps :: "(int \<times> int) list"

definition run_start :: "run \<Rightarrow> bool" where
  "run_start s \<longleftrightarrow> 0 \<le> clock s \<and> began s = clock s \<and> wake s = clock s \<and> main s = MLoop \<and> wg s = 0 \<and> cnt s = 0
     \<and> starters s = [] \<and> rpcs s = (\<lambda>_. RNone) \<and> stats s = startRecording (clock s) newStats \<and> comps s = []"

text \<open>Each step happens at a time \<open>now\<close>, not before the last one.\<close>

inductive run_step :: "nat \<Rightarrow> int \<Rightarrow> run \<Rightarrow> run \<Rightarrow> bool" for rps :: nat and exp_dur :: int where
  m_batch: "main s = MLoop \<Longrightarrow> clock s \<le> now \<Longrightarrow> wake s \<le> now \<Longrightarrow> now - began s < exp_dur \<Longrightarrow>
     run_step rps exp_dur s (s\<lparr>clock := now, wg := wg s + int rps, starters := starters s @ [rps], wake := now + 1000\<rparr>)"
| m_over: "main s = MLoop \<Longrightarrow> clock s \<le> now \<Longrightarrow> wake s \<le> now \<Longrightarrow> exp_dur \<le> now - began s \<Longrightarrow>
     run_step rps exp_dur s (s\<lparr>clock := now, main := MWait\<rparr>)"
| m_stop: "main s = MWait \<Longrightarrow> clock s \<le> now \<Longrightarrow> wg s = 0 \<Longrightarrow>
     run_step rps exp_dur s (s\<lparr>clock := now, main := MStopped, stats := stopRecording now (stats s)\<rparr>)"
| s_go: "clock s \<le> now \<Longrightarrow> k < length (starters s) \<Longrightarrow> starters s ! k = Suc m \<Longrightarrow>
     run_step rps exp_dur s
       (s\<lparr>clock := now, starters := (starters s)[k := m], cnt := cnt s + 1, rpcs := (rpcs s)(cnt s + 1 := RFlying now)\<rparr>)"
| r_got: "clock s \<le> now \<Longrightarrow> rpcs s i = RFlying t \<Longrightarrow>
     run_step rps exp_dur s (s\<lparr>clock := now, rpcs := (rpcs s)(i := RGot now lat)\<rparr>)"
| r_fail: "clock s \<le> now \<Longrightarrow> rpcs s i = RFlying t \<Longrightarrow>
     run_step rps exp_dur s (s\<lparr>clock := now, rpcs := (rpcs s)(i := RMarked False)\<rparr>)"
| r_record: "clock s \<le> now \<Longrightarrow> rpcs s i = RGot t lat \<Longrightarrow>
     run_step rps exp_dur s
       (s\<lparr>clock := now, stats := addLatency t lat (stats s), comps := comps s @ [(t, lat)], rpcs := (rpcs s)(i := RMarked True)\<rparr>)"
| r_done: "clock s \<le> now \<Longrightarrow> rpcs s i = RMarked ok \<Longrightarrow>
     run_step rps exp_dur s (s\<lparr>clock := now, wg := wg s - 1, rpcs := (rpcs s)(i := RGone ok)\<rparr>)"

section \<open>The invariant\<close>

fun live :: "req_pc \<Rightarrow> bool" where
  "live (RFlying t) = True"
| "live (RGot t l) = True"
| "live (RMarked ok) = True"
| "live _ = False"

fun recorded :: "req_pc \<Rightarrow> bool" where
  "recorded (RMarked ok) = ok"
| "recorded (RGone ok) = ok"
| "recorded _ = False"

text \<open>The IDs in use are \<open>1, \<dots>, cnt\<close>.\<close>

definition ids_ok :: "run \<Rightarrow> bool" where
  "ids_ok s \<longleftrightarrow> (\<forall>i. rpcs s i \<noteq> RNone \<longleftrightarrow> 1 \<le> i \<and> i \<le> cnt s)"

text \<open>The wait group counts what has not been started and what has not returned.\<close>

definition wg_ok :: "run \<Rightarrow> bool" where
  "wg_ok s \<longleftrightarrow> wg s = int (sum_list (starters s)) + tally live (rpcs s) (Suc (cnt s))"

definition comps_ok :: "run \<Rightarrow> bool" where
  "comps_ok s \<longleftrightarrow> int (length (comps s)) = tally recorded (rpcs s) (Suc (cnt s))"

definition issued_ok :: "nat \<Rightarrow> run \<Rightarrow> bool" where
  "issued_ok rps s \<longleftrightarrow> sum_list (starters s) + cnt s = rps * length (starters s)"

text \<open>What has been recorded, and when; nothing is recorded after the stop.\<close>

definition times_ok :: "run \<Rightarrow> bool" where
  "times_ok s \<longleftrightarrow> 0 \<le> began s \<and> began s \<le> clock s
     \<and> (\<forall>i t l. rpcs s i = RGot t l \<longrightarrow> began s \<le> t \<and> t \<le> clock s)
     \<and> (\<forall>(t, l)\<in>set (comps s). began s \<le> t \<and> t \<le> clock s)"

definition stats_ok :: "run \<Rightarrow> bool" where
  "stats_ok s \<longleftrightarrow>
     (if main s = MStopped
      then wg s = 0 \<and> (\<exists>e\<le>clock s. began s \<le> e \<and> (\<forall>(t, l)\<in>set (comps s). t \<le> e)
        \<and> stats s = stopRecording e (record_all (comps s) (startRecording (began s) newStats)))
      else stats s = record_all (comps s) (startRecording (began s) newStats))"

definition run_inv :: "nat \<Rightarrow> run \<Rightarrow> bool" where
  "run_inv rps s \<longleftrightarrow> ids_ok s \<and> wg_ok s \<and> comps_ok s \<and> issued_ok rps s \<and> times_ok s \<and> stats_ok s"

lemmas run_inv_defs = ids_ok_def wg_ok_def comps_ok_def issued_ok_def times_ok_def stats_ok_def

lemma started_in_range: "ids_ok s \<Longrightarrow> rpcs s i \<noteq> RNone \<Longrightarrow> i < Suc (cnt s)"
  by (auto simp: ids_ok_def)

text \<open>When the wait group is at zero, nothing is left that could change it.\<close>

lemma wg_zero:
  assumes "wg_ok s" and "ids_ok s" and "wg s = 0"
  shows "\<not> live (rpcs s i)" and "sum_list (starters s) = 0"
proof -
  have "tally live (rpcs s) (Suc (cnt s)) = 0" and 0: "sum_list (starters s) = 0"
    using assms(1,3) tally_nonneg [of live "rpcs s" "Suc (cnt s)"] unfolding wg_ok_def by linarith+
  then have n: "\<forall>i<Suc (cnt s). \<not> live (rpcs s i)" by (simp add: tally_zero_iff)
  show "\<not> live (rpcs s i)"
  proof
    assume l: "live (rpcs s i)"
    then have "rpcs s i \<noteq> RNone" by auto
    with started_in_range [OF assms(2)] n l show False by blast
  qed
  show "sum_list (starters s) = 0" by (rule 0)
qed

lemma sum_list_take_one:
  "k < length xs \<Longrightarrow> xs ! k = Suc m \<Longrightarrow> Suc (sum_list (xs[k := m])) = sum_list xs"
  by (induction xs arbitrary: k) (auto simp: nth_Cons split: nat.splits)

lemma not_stopped:
  assumes "run_inv rps s" and "live (rpcs s i)"
  shows "main s \<noteq> MStopped"
  using assms wg_zero(1) [of s i] by (auto simp: run_inv_def stats_ok_def split: if_splits)

lemma ids_moved:
  assumes "ids_ok s" and "rpcs s i \<noteq> RNone" and "x \<noteq> RNone" and "rpcs t = (rpcs s)(i := x)" and "cnt t = cnt s"
  shows "ids_ok t"
  unfolding ids_ok_def assms(4,5)
proof
  fix m
  show "(((rpcs s)(i := x)) m \<noteq> RNone) = (1 \<le> m \<and> m \<le> cnt s)"
    using assms(1,2,3) unfolding ids_ok_def by (cases "m = i") simp_all
qed

lemma ids_new:
  assumes "ids_ok s" and "x \<noteq> RNone" and "rpcs t = (rpcs s)(cnt s + 1 := x)" and "cnt t = cnt s + 1"
  shows "ids_ok t"
  unfolding ids_ok_def assms(3,4)
proof
  fix m
  show "(((rpcs s)(cnt s + 1 := x)) m \<noteq> RNone) = (1 \<le> m \<and> m \<le> cnt s + 1)"
  proof (cases "m = cnt s + 1")
    case False
    have "(rpcs s m \<noteq> RNone) = (1 \<le> m \<and> m \<le> cnt s)" using assms(1) unfolding ids_ok_def by blast
    with False show ?thesis by simp linarith
  qed (use assms(2) in simp)
qed

lemma ids_same: "ids_ok s \<Longrightarrow> rpcs t = rpcs s \<Longrightarrow> cnt t = cnt s \<Longrightarrow> ids_ok t"
  by (simp add: ids_ok_def)

lemma ids_step:
  assumes "ids_ok s" and "run_step rps d s t"
  shows "ids_ok t"
  using assms(2)
proof cases
  case (s_go now k m)
  then show ?thesis by (intro ids_new [OF assms(1), of "RFlying now"]) simp_all
next
  case (r_got now i t' lat)
  then show ?thesis by (intro ids_moved [OF assms(1), of i "RGot now lat"]) simp_all
next
  case (r_fail now i t')
  then show ?thesis by (intro ids_moved [OF assms(1), of i "RMarked False"]) simp_all
next
  case (r_record now i t' lat)
  then show ?thesis by (intro ids_moved [OF assms(1), of i "RMarked True"]) simp_all
next
  case (r_done now i ok)
  then show ?thesis by (intro ids_moved [OF assms(1), of i "RGone ok"]) simp_all
qed (auto intro: ids_same [OF assms(1)])

text \<open>The tallies when a request in use moves, and when one is started.\<close>

lemma tally_req:
  assumes "ids_ok s" and "rpcs s i \<noteq> RNone"
  shows "tally P ((rpcs s)(i := x)) (Suc (cnt s)) = tally P (rpcs s) (Suc (cnt s)) - of_bool (P (rpcs s i)) + of_bool (P x)"
  by (rule tally_upd [OF started_in_range [OF assms]])

lemma tally_new:
  "tally P ((rpcs s)(Suc (cnt s) := x)) (Suc (Suc (cnt s))) = tally P (rpcs s) (Suc (cnt s)) + of_bool (P x)"
  by (simp add: tally_Suc [of P _ "Suc (cnt s)"] tally_upd_out)

lemma wg_step:
  assumes "ids_ok s" and "wg_ok s" and "run_step rps d s t"
  shows "wg_ok t"
  using assms(3)
proof cases
  case (s_go now k m)
  with assms(2) sum_list_take_one [OF s_go(3,4)] show ?thesis
    by (simp add: wg_ok_def tally_new)
qed (use assms(2) tally_req [OF assms(1)] in \<open>simp_all add: wg_ok_def\<close>)

lemma comps_step:
  assumes "ids_ok s" and "comps_ok s" and "run_step rps d s t"
  shows "comps_ok t"
  using assms(3)
proof cases
  case (s_go now k m)
  with assms(2) show ?thesis by (simp add: comps_ok_def tally_new)
qed (use assms(2) tally_req [OF assms(1)] in \<open>simp_all add: comps_ok_def\<close>)

lemma issued_step:
  assumes "issued_ok rps s" and "run_step rps d s t"
  shows "issued_ok rps t"
  using assms(2)
proof cases
  case (s_go now k m)
  with assms(1) sum_list_take_one [OF s_go(3,4)] show ?thesis by (simp add: issued_ok_def)
qed (use assms(1) in \<open>simp_all add: issued_ok_def\<close>)

lemma times_mono:
  assumes "times_ok s" and "clock s \<le> now"
  shows "times_ok (s\<lparr>clock := now\<rparr>)"
  using assms unfolding times_ok_def by fastforce

lemma times_step:
  assumes "times_ok s" and "run_step rps d s t"
  shows "times_ok t"
  using assms(2)
proof cases
  case (r_record now i t' lat)
  then have "times_ok (s\<lparr>clock := now\<rparr>)" by (intro times_mono [OF assms(1)])
  with r_record show ?thesis by (fastforce simp: times_ok_def)
qed (use assms(1) times_mono [OF assms(1)] in \<open>auto simp: times_ok_def split: if_splits\<close>)

lemma stats_step:
  assumes "run_inv rps s" and "run_step rps d s t"
  shows "stats_ok t"
proof -
  have st: "stats_ok s" and ti: "times_ok s" using assms(1) by (simp_all add: run_inv_def)
  note live = not_stopped [OF assms(1)]
  have later: "stats_ok (s\<lparr>clock := now\<rparr>)" if "clock s \<le> now" for now
  proof (cases "main s = MStopped")
    case True
    with st obtain e where "wg s = 0" "e \<le> clock s" "began s \<le> e" "\<forall>(t, l)\<in>set (comps s). t \<le> e"
      "stats s = stopRecording e (record_all (comps s) (startRecording (began s) newStats))"
      by (auto simp: stats_ok_def)
    with True that show ?thesis by (auto simp: stats_ok_def intro!: exI [of _ e])
  qed (use st in \<open>simp add: stats_ok_def\<close>)
  from assms(2) show ?thesis
  proof cases
    case (m_stop now)
    then have "stats s = record_all (comps s) (startRecording (began s) newStats)" using st by (simp add: stats_ok_def)
    moreover have "\<forall>(t, l)\<in>set (comps s). t \<le> now" using ti m_stop by (fastforce simp: times_ok_def)
    ultimately show ?thesis using m_stop ti by (auto simp: stats_ok_def times_ok_def intro!: exI [of _ now])
  next
    case (s_go now k m)
    then have "stats_ok t = stats_ok (s\<lparr>clock := now\<rparr>)" by (simp add: stats_ok_def)
    with later [of now] s_go show ?thesis by simp
  next
    case (r_record now i t' lat)
    then show ?thesis using st live [of i] by (simp add: stats_ok_def)
  next
    case (r_done now i ok)
    then show ?thesis using st live [of i] by (simp add: stats_ok_def)
  next
    case (r_got now i t' lat)
    then show ?thesis using st live [of i] by (simp add: stats_ok_def)
  next
    case (r_fail now i t')
    then show ?thesis using st live [of i] by (simp add: stats_ok_def)
  qed (use st in \<open>simp_all add: stats_ok_def\<close>)
qed

interpretation lgr: machine_invariant run_start "run_step rps exp_dur" "run_inv rps"
proof
  fix s assume "run_start s"
  then show "run_inv rps s"
    by (auto simp: run_start_def run_inv_def run_inv_defs tally_def)
next
  fix s t assume "run_inv rps s" "run_step rps exp_dur s t"
  then show "run_inv rps t"
    using stats_step by (auto simp: run_inv_def intro: ids_step wg_step comps_step issued_step times_step)
qed

section \<open>Progress\<close>













section \<open>A run\<close>

text \<open>One request a second for one second; the request is answered at once.\<close>

definition demo_run :: run where
  "demo_run = \<lparr>clock = 0, began = 0, wake = 0, main = MLoop, wg = 0, cnt = 0, starters = [], rpcs = (\<lambda>_. RNone),
     stats = startRecording 0 newStats, comps = []\<rparr>"

lemma demo_run_starts: "run_start demo_run"
  by (simp add: run_start_def demo_run_def)

lemma demo_run_stops:
  "\<exists>s. reach run_start (run_step 1 1000) s \<and> main s = MStopped \<and> comps s = [(0, 7)]"
proof -
  define s1 where "s1 = demo_run\<lparr>clock := 0, wg := 1, starters := [1], wake := 1000\<rparr>"
  define s2 where "s2 = s1\<lparr>clock := 0, starters := [0], cnt := 1, rpcs := (rpcs s1)(1 := RFlying 0)\<rparr>"
  define s3 where "s3 = s2\<lparr>clock := 0, rpcs := (rpcs s2)(1 := RGot 0 7)\<rparr>"
  define s4 where "s4 = s3\<lparr>clock := 0, stats := addLatency 0 7 (stats s3), comps := [(0, 7)], rpcs := (rpcs s3)(1 := RMarked True)\<rparr>"
  define s5 where "s5 = s4\<lparr>clock := 0, wg := 0, rpcs := (rpcs s4)(1 := RGone True)\<rparr>"
  define s6 where "s6 = s5\<lparr>clock := 1000, main := MWait\<rparr>"
  define s7 where "s7 = s6\<lparr>clock := 1000, main := MStopped, stats := stopRecording 1000 (stats s6)\<rparr>"
  note defs = demo_run_def s1_def s2_def s3_def s4_def s5_def s6_def
  have r: "reach run_start (run_step 1 1000) demo_run" by (rule reach_start) (rule demo_run_starts)
  have "run_from (run_step 1 1000) demo_run [s1, s2, s3, s4, s5, s6, s7]"
    unfolding run_from.simps
  proof (intro conjI TrueI)
    show "run_step 1 1000 demo_run s1" using m_batch [of demo_run 0 1000 1] by (simp add: s1_def demo_run_def)
    show "run_step 1 1000 s1 s2" using s_go [of s1 0 0 0 1 1000] by (simp add: defs)
    show "run_step 1 1000 s2 s3" using r_got [of s2 0 1 0 1 1000 7] by (simp add: defs)
    show "run_step 1 1000 s3 s4" using r_record [of s3 0 1 0 7 1 1000] by (simp add: defs)
    show "run_step 1 1000 s4 s5" using r_done [of s4 0 1 True 1 1000] by (simp add: defs)
    show "run_step 1 1000 s5 s6" using m_over [of s5 1000 1000 1] by (simp add: defs)
    show "run_step 1 1000 s6 s7" using m_stop [of s6 1000 1 1000] by (simp add: s7_def defs)
  qed
  from reach_run [OF r this] have "reach run_start (run_step 1 1000) s7" by simp
  then show ?thesis by (intro exI [of _ s7]) (simp add: s7_def defs)
qed

section \<open>Properties\<close>

text \<open>
  C24. The load generator accounts for every request, in every interleaving. Its wait group is
  never negative. When \<open>main\<close> goes on to print, every request of every second has been
  issued, under the IDs from 1 on, and has come to its end; the statistics hold exactly one
  latency for each request whose GET succeeded, recorded between the start and the stop; and
  printing them does not fail.
\<close>

theorem loadgen_accounts:
  assumes "reach run_start (run_step rps exp_dur) s"
  shows "0 \<le> wg s
    \<and> (main s = MStopped \<longrightarrow>
        cnt s = rps * length (starters s)
        \<and> (\<forall>i. 1 \<le> i \<and> i \<le> cnt s \<longrightarrow> (\<exists>ok. rpcs s i = RGone ok))
        \<and> length (comps s) = card {i. 1 \<le> i \<and> i \<le> cnt s \<and> rpcs s i = RGone True}
        \<and> (\<exists>e. (\<forall>(t, l)\<in>set (comps s). began s \<le> t \<and> t \<le> e)
            \<and> stats s = stopRecording e (record_all (comps s) (startRecording (began s) newStats))
            \<and> (\<exists>a. print_stat stat (stats s) = Inr a)))"
proof (intro conjI impI)
  have inv: "run_inv rps s" by (rule lgr.reach_inv [OF assms])
  then have ok: "ids_ok s" "wg_ok s" "comps_ok s" "issued_ok rps s" "times_ok s" "stats_ok s"
    by (simp_all add: run_inv_def)
  show "0 \<le> wg s" using ok(2) by (simp add: wg_ok_def)
  assume stop: "main s = MStopped"
  then obtain e where "wg s = 0" and e: "began s \<le> e" "\<forall>(t, l)\<in>set (comps s). t \<le> e"
    "stats s = stopRecording e (record_all (comps s) (startRecording (began s) newStats))"
    using ok(6) by (auto simp: stats_ok_def)
  note quiet = wg_zero [OF ok(2,1) this(1)]
  show "cnt s = rps * length (starters s)" using ok(4) quiet(2) by (simp add: issued_ok_def)
  show gone: "\<forall>i. 1 \<le> i \<and> i \<le> cnt s \<longrightarrow> (\<exists>ok. rpcs s i = RGone ok)"
  proof (intro allI impI)
    fix i assume "1 \<le> i \<and> i \<le> cnt s"
    with ok(1) have "rpcs s i \<noteq> RNone" unfolding ids_ok_def by blast
    with quiet(1) [of i] show "\<exists>ok. rpcs s i = RGone ok" by (cases "rpcs s i") auto
  qed
  have "{i. i < Suc (cnt s) \<and> recorded (rpcs s i)} = {i. 1 \<le> i \<and> i \<le> cnt s \<and> rpcs s i = RGone True}"
  proof (rule Collect_cong)
    fix i
    have "rpcs s i \<noteq> RNone \<longleftrightarrow> 1 \<le> i \<and> i \<le> cnt s" using ok(1) unfolding ids_ok_def by blast
    with quiet(1) [of i] show "(i < Suc (cnt s) \<and> recorded (rpcs s i)) = (1 \<le> i \<and> i \<le> cnt s \<and> rpcs s i = RGone True)"
      by (cases "rpcs s i") auto
  qed
  then show "length (comps s) = card {i. 1 \<le> i \<and> i \<le> cnt s \<and> rpcs s i = RGone True}"
    using ok(3) by (simp add: comps_ok_def tally_card)
  have "\<forall>(t, l)\<in>set (comps s). began s \<le> t \<and> t \<le> e" using ok(5) e(2) by (auto simp: times_ok_def)
  moreover have "\<exists>a. print_stat stat (stats s) = Inr a"
    using print_windows [of "began s" e _ stat "comps s"] ok(5) e(1) unfolding e(3) times_ok_def by blast
  ultimately show "\<exists>e. (\<forall>(t, l)\<in>set (comps s). began s \<le> t \<and> t \<le> e)
      \<and> stats s = stopRecording e (record_all (comps s) (startRecording (began s) newStats))
      \<and> (\<exists>a. print_stat stat (stats s) = Inr a)"
    using e(3) by blast
qed

theorem loadgen_accounts_witness:
  "\<exists>s :: run. comps s = [(0, 7)] \<and> cnt s = length (starters s) \<and> card {i. 1 \<le> i \<and> i \<le> cnt s \<and> rpcs s i = RGone True} = 1"
proof -
  obtain s where s: "reach run_start (run_step 1 1000) s" "main s = MStopped" "comps s = [(0, 7)]"
    using demo_run_stops by blast
  note q = loadgen_accounts [OF s(1), of hd, THEN conjunct2, rule_format, OF s(2)]
  have "cnt s = length (starters s)" using q by simp
  moreover have "length (comps s) = card {i. 1 \<le> i \<and> i \<le> cnt s \<and> rpcs s i = RGone True}" using q by blast
  ultimately show ?thesis using s(3) by (intro exI [of _ s]) (simp only: list.size One_nat_def simp_thms)
qed



end
