(* ===== verification/LoadReport.thy ===== *)
theory LoadReport
  imports LoadStats GoUrl GoFmt
begin

text \<open>
  What the load generator prints: the text that \<open>print\<close> logs of its statistics, and the status of
  the Kubernetes autoscaler that a goroutine logs while the run goes on. The calls of the
  Kubernetes client are parameters.
\<close>

section \<open>The report\<close>

text \<open>\<open>%v\<close> of a slice of durations.\<close>

fun join :: "string \<Rightarrow> string list \<Rightarrow> string" where
  "join sep [] = []"
| "join sep [x] = x"
| "join sep (x # y # xs) = x @ sep @ join sep (y # xs)"

definition fmt_durations :: "int list \<Rightarrow> string" where
  "fmt_durations ls = ''['' @ join '' '' (map Duration_String ls) @ '']''"

abbreviation newline :: char where "newline \<equiv> CHR 0x0A"

definition raw_title :: string where
  "raw_title = ''=== Raw latency:''"

definition raw_line :: "int \<Rightarrow> int list \<Rightarrow> string" where
  "raw_line i l = Itoa i @ '': '' @ fmt_durations l"

text \<open>The ticks of the report, which are those of the windows.\<close>

definition report_ticks :: "Stats \<Rightarrow> int list" where
  "report_ticks s = [STATS_WINDOW_SIZE .. st_end s - st_start s + 1]"

definition raw_report :: "Stats \<Rightarrow> string" where
  "raw_report s = [newline] @ raw_title @ [newline]
     @ concat (map (\<lambda>i. case lats s i of None \<Rightarrow> [] | Some l \<Rightarrow> raw_line i l @ [newline]) (report_ticks s))"

definition tick_line :: "nat \<Rightarrow> rat \<Rightarrow> rat \<Rightarrow> rat \<Rightarrow> rat \<Rightarrow> string" where
  "tick_line i avg p50 p90 p99 = Itoa (int i) @ '' mean:'' @ fmt2 avg @ '' p50:'' @ fmt2 p50
     @ '' p90:'' @ fmt2 p90 @ '' p99:'' @ fmt2 p99"

definition tick_report :: "rat list \<Rightarrow> rat list \<Rightarrow> rat list \<Rightarrow> rat list \<Rightarrow> string" where
  "tick_report avg p50 p90 p99 = [newline] @ ''=== Per-tick latency stats:''
     @ concat (map (\<lambda>i. [newline, CHR 0x09] @ tick_line i (avg ! i) (p50 ! i) (p90 ! i) (p99 ! i)) [0..<length avg])"

text \<open>
  \<open>print\<close>: the four statistics are filled in the same loop, so they stop at the same index if at
  all. Both reports are logged as formats without arguments.
\<close>

definition print_report :: "(rat list \<Rightarrow> rat) \<times> (rat list \<Rightarrow> rat) \<times> (rat list \<Rightarrow> rat) \<times> (rat list \<Rightarrow> rat)
    \<Rightarrow> Stats \<Rightarrow> go_stop + string option \<times> string option" where
  "print_report fs s =
     (case fs of (mean, q50, q90, q99) \<Rightarrow>
       (case print_stat mean s of Inl stop \<Rightarrow> Inl stop | Inr avg \<Rightarrow>
       (case print_stat q50 s of Inl stop \<Rightarrow> Inl stop | Inr p50 \<Rightarrow>
       (case print_stat q90 s of Inl stop \<Rightarrow> Inl stop | Inr p90 \<Rightarrow>
       (case print_stat q99 s of Inl stop \<Rightarrow> Inl stop | Inr p99 \<Rightarrow>
          Inr (Printf0 (raw_report s), Printf0 (tick_report avg p50 p90 p99)))))))"

section \<open>Reading the report\<close>

lemma word_fresh:
  "list_all word_char s \<Longrightarrow> newline \<notin> set s" "list_all word_char s \<Longrightarrow> CHR ''%'' \<notin> set s"
  "list_all word_char s \<Longrightarrow> CHR '':'' \<notin> set s"
  by (auto simp: list_all_iff word_char_def)

lemma set_join: "set (join sep xs) \<subseteq> set sep \<union> (\<Union>x\<in>set xs. set x)"
  by (induction sep xs rule: join.induct) auto

lemma fmt_durations_chars: "c \<in> set (fmt_durations ls) \<Longrightarrow> c = CHR ''['' \<or> c = CHR '']'' \<or> c = CHR '' '' \<or> word_char c"
  using set_join [of "'' ''" "map Duration_String ls"] word_Duration
  by (force simp: fmt_durations_def list_all_iff)

lemma raw_line_chars: "newline \<notin> set (raw_line i l)" "CHR ''%'' \<notin> set (raw_line i l)"
  using fmt_durations_chars [of newline l] fmt_durations_chars [of "CHR ''%''" l] word_Itoa [THEN word_fresh(1)] word_Itoa [THEN word_fresh(2)]
  by (auto simp: raw_line_def word_char_def)

lemma tick_line_chars: "CHR ''%'' \<notin> set (tick_line i a b c d)"
  using word_Itoa [THEN word_fresh(2)] word_fmt2 [THEN word_fresh(2)] by (simp add: tick_line_def)

lemma split_lines:
  assumes "\<And>x. x \<in> set xs \<Longrightarrow> c \<notin> set (f x)"
  shows "split_on c (concat (map (\<lambda>x. f x @ [c]) xs)) = map f xs @ [[]]"
  using assms by (induction xs) (simp_all add: split_on_append)

text \<open>The ticks of the report at which requests have completed, each with its latencies.\<close>

definition reported :: "Stats \<Rightarrow> (int \<times> int list) list" where
  "reported s = List.map_filter (\<lambda>i. map_option (Pair i) (lats s i)) (report_ticks s)"

lemma raw_report_lines: "split_on newline (raw_report s) = [[], raw_title] @ map (\<lambda>(i, l). raw_line i l) (reported s) @ [[]]"
proof -
  have eq: "concat (map (\<lambda>i. case m i of None \<Rightarrow> [] | Some l \<Rightarrow> raw_line i l @ [newline]) is)
      = concat (map (\<lambda>x. (case x of (i, l) \<Rightarrow> raw_line i l) @ [newline]) (List.map_filter (\<lambda>i. map_option (Pair i) (m i)) is))"
    for m :: "int \<rightharpoonup> int list" and "is"
    by (induction "is") (auto simp: List.map_filter_simps split: option.splits)
  have t: "newline \<notin> set raw_title" by (simp add: raw_title_def)
  show ?thesis
    using split_lines [of "reported s" newline "\<lambda>(i, l). raw_line i l"] raw_line_chars(1)
      split_on_append [OF t]
    by (simp add: raw_report_def eq reported_def [symmetric] split_beta)
qed

lemma lats_stop [simp]: "lats (stopRecording e s) = lats s" "st_start (record_all cs s) = st_start s"
proof -
  have "st_start (addLatency t l s) = st_start s" for t l s by (simp add: addLatency_def Let_def)
  then show "st_start (record_all cs s) = st_start s"
    by (induction cs arbitrary: s) (auto simp: record_all_def)
qed (simp add: stopRecording_def)

lemma record_all_ne: "lats s j \<noteq> Some [] \<Longrightarrow> lats (record_all cs s) j \<noteq> Some []"
proof (induction cs arbitrary: s)
  case (Cons c cs)
  have "lats (addLatency (fst c) (snd c) s) j \<noteq> Some []" using Cons.prems by (simp add: addLatency_lats)
  from Cons.IH [OF this] show ?case by (simp add: record_all_def split_beta)
qed (simp add: record_all_def)

lemma record_all_at:
  "lats (record_all cs (startRecording b newStats)) i
     = (if at_tick (timeToTicks b) cs i = [] then None else Some (at_tick (timeToTicks b) cs i))"
  using record_all_lats [of "startRecording b newStats" cs i] record_all_ne [of "startRecording b newStats" i cs]
  by (auto split: option.splits)

lemma reported_run:
  "reported (stopRecording e (record_all cs (startRecording b newStats)))
     = map (\<lambda>i. (i, at_tick (timeToTicks b) cs i))
         (filter (\<lambda>i. at_tick (timeToTicks b) cs i \<noteq> []) [10 .. timeToTicks e - timeToTicks b + 1])"
proof -
  have "List.map_filter (\<lambda>i. map_option (Pair i) (if P i = [] then None else Some (P i))) is
      = map (\<lambda>i. (i, P i)) (filter (\<lambda>i. P i \<noteq> []) is)" for P :: "int \<Rightarrow> int list" and "is"
    by (induction "is") (simp_all add: List.map_filter_simps)
  then show ?thesis by (simp add: reported_def report_ticks_def record_all_at STATS_WINDOW_SIZE_def)
qed

section \<open>The autoscaler\<close>

text \<open>
  A metric of the specification (with its target) or of the status (with the current value): its
  type, and the resource, a pointer to a name and a pointer to the utilization.
\<close>

record metric =
  mType :: string
  mResource :: "(string \<times> int option) option"

record hpa =
  specMetrics :: "metric list"
  currentMetrics :: "metric list"
  currentReplicas :: int
  desiredReplicas :: int

definition nil_deref :: go_stop where
  "nil_deref = Panic ''invalid memory address or nil pointer dereference''"

text \<open>One of the two loops of \<open>getUtil\<close>, with the value of its variable so far.\<close>

fun find_util :: "metric list \<Rightarrow> int \<Rightarrow> go_stop + int" where
  "find_util [] util = Inr util"
| "find_util (m # ms) util =
     (if mType m = ''Resource'' then
        (case mResource m of
           None \<Rightarrow> Inl nil_deref
         | Some (name, u) \<Rightarrow>
             if name = ''cpu'' then (case u of None \<Rightarrow> Inl nil_deref | Some x \<Rightarrow> Inr x)
             else find_util ms util)
      else find_util ms util)"

text \<open>The current and the target utilization, and whether the assertion on the target holds.\<close>

definition getUtil :: "hpa \<Rightarrow> go_stop + int \<times> int \<times> bool" where
  "getUtil h =
     (case find_util (specMetrics h) (- 1) of
        Inl stop \<Rightarrow> Inl stop
      | Inr target \<Rightarrow>
          (case find_util (currentMetrics h) (- 1) of
             Inl stop \<Rightarrow> Inl stop
           | Inr cur \<Rightarrow> Inr (cur, target, target \<noteq> - 1)))"

definition getNReplicas :: "hpa \<Rightarrow> int \<times> int" where
  "getNReplicas h = (currentReplicas h, desiredReplicas h)"

text \<open>
  One report: \<open>reply\<close> is what the client returned, an error and a pointer. An error fails the
  test and the pointer is used all the same. The result is what was logged and whether the
  assertions held.
\<close>

definition logDeploymentStatus :: "string option \<times> hpa option \<Rightarrow> go_stop + (int \<times> int \<times> int \<times> int) \<times> bool" where
  "logDeploymentStatus reply =
     (case snd reply of
        None \<Rightarrow> Inl nil_deref
      | Some h \<Rightarrow>
          (case getNReplicas h of (curN, desN) \<Rightarrow>
            (case getUtil h of
               Inl stop \<Rightarrow> Inl stop
             | Inr (cur, target, ok) \<Rightarrow> Inr ((cur, target, curN, desN), ok \<and> fst reply = None))))"

text \<open>
  The goroutine \<open>monitorK8sClusterStatus\<close>: \<open>polls\<close> are the turns of its loop, each with the value of
  \<open>s.done\<close> that it reads and the reply it gets. The result is what was logged, whether every
  assertion held, and the panic that ended it, if any.
\<close>

fun monitorK8sClusterStatus :: "(bool \<times> string option \<times> hpa option) list \<Rightarrow> (int \<times> int \<times> int \<times> int) list \<times> bool \<times> go_stop option" where
  "monitorK8sClusterStatus [] = ([], True, None)"
| "monitorK8sClusterStatus ((done, reply) # polls) =
     (if done then ([], True, None)
      else (case logDeploymentStatus reply of
              Inl stop \<Rightarrow> ([], True, Some stop)
            | Inr (line, ok) \<Rightarrow>
                (case monitorK8sClusterStatus polls of (lines, oks, stop) \<Rightarrow> (line # lines, ok \<and> oks, stop))))"

section \<open>What the monitor logs\<close>

text \<open>
  The first metric that decides: the first one of type Resource that is for the CPU, or has no
  resource to look into.
\<close>

definition deciding :: "metric list \<Rightarrow> metric option" where
  "deciding ms = List.find (\<lambda>m. mType m = ''Resource'' \<and> map_option fst (mResource m) \<in> {None, Some ''cpu''}) ms"

text \<open>The utilization in a list of metrics, -1 if there is none; \<open>None\<close> if a pointer on the way is nil.\<close>

definition utilization :: "metric list \<Rightarrow> int option" where
  "utilization ms = (case deciding ms of None \<Rightarrow> Some (- 1) | Some m \<Rightarrow> Option.bind (mResource m) snd)"

lemma find_util_eq: "find_util ms (- 1) = (case utilization ms of None \<Rightarrow> Inl nil_deref | Some u \<Rightarrow> Inr u)"
  by (induction ms) (auto simp: utilization_def deciding_def split: option.splits)

definition status_of :: "string option \<times> hpa option \<Rightarrow> (int \<times> int \<times> int \<times> int) option" where
  "status_of reply = Option.bind (snd reply) (\<lambda>h.
     Option.bind (utilization (currentMetrics h)) (\<lambda>cur. map_option (\<lambda>target. (cur, target, currentReplicas h, desiredReplicas h))
       (utilization (specMetrics h))))"

lemma logDeploymentStatus_eq:
  "logDeploymentStatus reply =
     (case status_of reply of
        None \<Rightarrow> Inl nil_deref
      | Some line \<Rightarrow> Inr (line, fst reply = None \<and> fst (snd line) \<noteq> - 1))"
  by (auto simp: logDeploymentStatus_def status_of_def getUtil_def getNReplicas_def find_util_eq split: option.splits)

section \<open>Properties\<close>

text \<open>
  C29. What \<open>print\<close> logs of a run is what it has formatted: neither report has a percent sign that
  \<open>log.Printf\<close> would take for a verb, and nothing panics. The raw report has one line for each
  tick from the tenth on in which requests have completed, in order, with their latencies in
  the order in which they were recorded; those of the first ten ticks are not in it.
\<close>

theorem report_lines:
  assumes "0 \<le> b" and "b \<le> e"
  shows "\<exists>raw ticks. print_report fs (stopRecording e (record_all cs (startRecording b newStats))) = Inr (Some raw, Some ticks)
    \<and> split_on newline raw = [[], raw_title]
        @ map (\<lambda>i. raw_line i (at_tick (timeToTicks b) cs i))
            (filter (\<lambda>i. at_tick (timeToTicks b) cs i \<noteq> []) [10 .. timeToTicks e - timeToTicks b + 1])
        @ [[]]"
proof -
  let ?s = "stopRecording e (record_all cs (startRecording b newStats))"
  have p: "\<exists>a. print_stat f ?s = Inr a" for f using print_windows [OF assms refl, of f cs] by blast
  have "CHR ''%'' \<notin> set (raw_report ?s)"
    using raw_line_chars(2) by (auto simp: raw_report_def raw_title_def split: option.splits)
  moreover have "CHR ''%'' \<notin> set (tick_report a p50 p90 p99)" for a p50 p90 p99
    using tick_line_chars by (auto simp: tick_report_def)
  ultimately have "\<exists>ticks. print_report fs ?s = Inr (Some (raw_report ?s), Some ticks)"
    using p [of "fst fs"] p [of "fst (snd fs)"] p [of "fst (snd (snd fs))"] p [of "snd (snd (snd fs))"]
    by (auto simp: print_report_def Printf0_def split_beta)
  with raw_report_lines [of ?s] show ?thesis by (auto simp: reported_run)
qed

theorem report_lines_witness:
  "\<exists>raw ticks. print_report (hd, hd, hd, hd) (stopRecording 12900
       (record_all [(500, 7), (11200, 8), (11300, 9)] (startRecording 100 newStats))) = Inr (Some raw, Some ticks)
     \<and> split_on newline raw = [[], raw_title, raw_line 11 [8, 9], []]"
proof -
  have t: "timeToTicks 12900 = 12" "timeToTicks 100 = 0" "timeToTicks 500 = 0" "timeToTicks 11200 = 11" "timeToTicks 11300 = 11"
    by (simp_all add: timeToTicks_nonneg)
  show ?thesis
    using report_lines [of 100 12900 "(hd, hd, hd, hd)" "[(500, 7), (11200, 8), (11300, 9)]"]
    by (simp add: t at_tick_def upto_rec1)
qed

text \<open>
  The monitor logs one line for each poll until it sees that the run is over. A line has the
  utilization of the first CPU metric of status and specification, or -1, and the replica
  counts. It fails the test, without ending it, when a call has returned an error or when
  there is no target; and it panics, which ends the whole test, exactly at the first poll
  that has no object or a metric with a nil pointer where it looks.
\<close>

theorem monitor_outcome:
  "monitorK8sClusterStatus polls =
     (let replies = map snd (takeWhile (\<lambda>p. \<not> fst p) polls);
          good = takeWhile (\<lambda>r. status_of r \<noteq> None) replies
      in (map (the \<circ> status_of) good,
          list_all (\<lambda>r. fst r = None \<and> fst (snd (the (status_of r))) \<noteq> - 1) good,
          if good = replies then None else Some nil_deref))"
proof (induction polls)
  case (Cons p polls)
  obtain fin reply where p: "p = (fin, reply)" by (cases p)
  show ?case
  proof (cases fin)
    case False
    with p Cons show ?thesis
      by (cases "status_of reply") (simp_all add: Let_def logDeploymentStatus_eq split_beta del: split_paired_All split_paired_Ex)
  qed (simp add: p)
qed simp

end
