(* ===== verification/WatchMap.thy ===== *)
theory WatchMap
  imports GoStr
begin

text \<open>
  \<open>service-discovery/etcd/load_test\<close>: the watch map (\<open>util/watch_map.go\<close>), the watcher
  goroutine and the writers of \<open>TestRegisterDeregisterWatchStableSet\<close> (\<open>load_test.go\<close>). A
  writer registers an instance, waits until every watcher has heard of it, and deregisters
  it; the time between is the latency the test measures.
\<close>

section \<open>Wait groups and the watch map\<close>

text \<open>A \<open>sync.WaitGroup\<close> is its counter; a counter that would go negative panics.\<close>

definition wg_Add :: "int \<Rightarrow> int \<Rightarrow> go_stop + int" where
  "wg_Add d c = (if c + d < 0 then Inl (Panic ''sync: negative WaitGroup counter'') else Inr (c + d))"

definition wg_Done :: "int \<Rightarrow> go_stop + int" where
  "wg_Done c = wg_Add (-1) c"

text \<open>The map holds pointers to wait groups; a pointer is an index into the heap of counters.\<close>

record WatchMap =
  wgs :: "string \<rightharpoonup> nat"

definition NewWatchMap :: WatchMap where
  "NewWatchMap = \<lparr>wgs = Map.empty\<rparr>"

text \<open>
  \<open>Add\<close> first publishes the fresh wait group \<open>p\<close> under the lock, and adds to its counter after
  the unlock; the two parts are separate, since a watcher may run in between.
\<close>

definition wm_publish :: "string \<Rightarrow> nat \<Rightarrow> WatchMap \<Rightarrow> (nat \<Rightarrow> int) \<Rightarrow> WatchMap \<times> (nat \<Rightarrow> int)" where
  "wm_publish key p wm h = (wm\<lparr>wgs := (wgs wm)(key \<mapsto> p)\<rparr>, h(p := 0))"

definition wm_add :: "int \<Rightarrow> nat \<Rightarrow> (nat \<Rightarrow> int) \<Rightarrow> go_stop + (nat \<Rightarrow> int)" where
  "wm_add n p h = (case wg_Add n (h p) of Inl x \<Rightarrow> Inl x | Inr c \<Rightarrow> Inr (h(p := c)))"

definition wm_Get :: "string \<Rightarrow> WatchMap \<Rightarrow> nat option" where
  "wm_Get key wm = wgs wm key"

section \<open>The watcher\<close>

text \<open>An event is its key and whether it created the key.\<close>

type_synonym event = "string \<times> bool"

definition SVC_NAME :: string where "SVC_NAME = ''mysvc''"

definition dummy_key :: string where "dummy_key = SVC_NAME @ ''/xxx''"

text \<open>One turn of the loop over \<open>resp.Events\<close>: \<open>Done\<close> on a missing entry dereferences nil.\<close>

definition watcher_event :: "bool \<Rightarrow> event \<Rightarrow> WatchMap \<Rightarrow> (nat \<Rightarrow> int) \<Rightarrow> go_stop + (nat \<Rightarrow> int)" where
  "watcher_event ackCreates e wm h =
     (if snd e \<and> ackCreates then
        if fst e = dummy_key then Inr h
        else (case wm_Get (fst e) wm of
                None \<Rightarrow> Inl (Panic ''nil pointer dereference'')
              | Some p \<Rightarrow> (case wg_Done (h p) of Inl x \<Rightarrow> Inl x | Inr c \<Rightarrow> Inr (h(p := c))))
      else Inr h)"

section \<open>Writers\<close>

text \<open>The key that call \<open>i\<close> of the load generator uses; the shared counter starts at 1.\<close>

definition replica_key :: "nat \<Rightarrow> string" where
  "replica_key i = SVC_NAME @ ''/svc-replica-'' @ Itoa (int i + 2)"

definition replica_addr :: "nat \<Rightarrow> string" where
  "replica_addr i = ''127.0.0.1:'' @ Itoa (10000 + (int i + 2))"

lemma replica_key_inj [simp]: "replica_key i = replica_key j \<longleftrightarrow> i = j"
  by (simp add: replica_key_def Itoa_inj)

lemma replica_key_not_dummy [simp]: "replica_key i \<noteq> dummy_key"
  by (simp add: replica_key_def dummy_key_def)

section \<open>The test\<close>

text \<open>
  The etcd service is a parameter: a state \<open>'e\<close> seen through \<open>get\<close>, with \<open>put\<close> and \<open>del\<close>. What
  the test relies on, as etcd documents it: a put binds the key and its event is a create
  exactly when the key was absent; a delete unbinds it and reports how many keys it removed.
\<close>

type_synonym 'e get_op = "'e \<Rightarrow> string \<rightharpoonup> string"
type_synonym 'e put_op = "'e \<Rightarrow> string \<Rightarrow> string \<Rightarrow> 'e \<times> event list"
type_synonym 'e del_op = "'e \<Rightarrow> string \<Rightarrow> 'e \<times> nat \<times> event list"

definition etcd_laws :: "'e get_op \<Rightarrow> 'e put_op \<Rightarrow> 'e del_op \<Rightarrow> bool" where
  "etcd_laws get put del \<longleftrightarrow>
     (\<forall>e k v. get (fst (put e k v)) = (get e)(k \<mapsto> v) \<and> snd (put e k v) = [(k, get e k = None)])
   \<and> (\<forall>e k. get (fst (del e k)) = (get e)(k := None)
        \<and> snd (del e k) = (if get e k = None then (0, []) else (1, [(k, False)])))"

datatype writer_pc = WrIdle | WrPublished | WrAdded | WrPut | WrWaited | WrDone nat

datatype watcher_st = Watching "event list" | Stopped

record 'e wsys =
  estore :: 'e
  wmap :: WatchMap
  wheap :: "nat \<Rightarrow> int"
  wph :: "nat \<Rightarrow> writer_pc"
  wch :: "nat \<Rightarrow> event list"
  wst :: "nat \<Rightarrow> watcher_st"
  wcrash :: bool

text \<open>Every watcher's channel gets every event once and in order.\<close>

definition broadcast :: "nat \<Rightarrow> event list \<Rightarrow> (nat \<Rightarrow> event list) \<Rightarrow> nat \<Rightarrow> event list" where
  "broadcast nw evs ch w = (if w < nw then ch w @ evs else ch w)"

definition writer_done :: "writer_pc \<Rightarrow> bool" where
  "writer_done p \<longleftrightarrow> (\<exists>n. p = WrDone n)"

inductive w_step :: "'e get_op \<Rightarrow> 'e put_op \<Rightarrow> 'e del_op \<Rightarrow> nat \<Rightarrow> nat \<Rightarrow> 'e wsys \<Rightarrow> 'e wsys \<Rightarrow> bool"
  for get :: "'e get_op" and put :: "'e put_op" and del :: "'e del_op" and nw :: nat and m :: nat where
  wr_publish: "\<not> wcrash s \<Longrightarrow> i < m \<Longrightarrow> wph s i = WrIdle \<Longrightarrow>
     wm_publish (replica_key i) i (wmap s) (wheap s) = (wm', h') \<Longrightarrow>
     w_step get put del nw m s (s\<lparr>wmap := wm', wheap := h', wph := (wph s)(i := WrPublished)\<rparr>)"
| wr_add: "\<not> wcrash s \<Longrightarrow> i < m \<Longrightarrow> wph s i = WrPublished \<Longrightarrow> wm_add (int nw) i (wheap s) = Inr h' \<Longrightarrow>
     w_step get put del nw m s (s\<lparr>wheap := h', wph := (wph s)(i := WrAdded)\<rparr>)"
| wr_add_panic: "\<not> wcrash s \<Longrightarrow> i < m \<Longrightarrow> wph s i = WrPublished \<Longrightarrow> wm_add (int nw) i (wheap s) = Inl x \<Longrightarrow>
     w_step get put del nw m s (s\<lparr>wcrash := True\<rparr>)"
| wr_put: "\<not> wcrash s \<Longrightarrow> i < m \<Longrightarrow> wph s i = WrAdded \<Longrightarrow>
     put (estore s) (replica_key i) (replica_addr i) = (e', evs) \<Longrightarrow>
     w_step get put del nw m s (s\<lparr>estore := e', wch := broadcast nw evs (wch s), wph := (wph s)(i := WrPut)\<rparr>)"
| wr_wait: "\<not> wcrash s \<Longrightarrow> i < m \<Longrightarrow> wph s i = WrPut \<Longrightarrow> wheap s i = 0 \<Longrightarrow>
     w_step get put del nw m s (s\<lparr>wph := (wph s)(i := WrWaited)\<rparr>)"
| wr_delete: "\<not> wcrash s \<Longrightarrow> i < m \<Longrightarrow> wph s i = WrWaited \<Longrightarrow>
     del (estore s) (replica_key i) = (e', deleted, evs) \<Longrightarrow>
     w_step get put del nw m s (s\<lparr>estore := e', wch := broadcast nw evs (wch s), wph := (wph s)(i := WrDone deleted)\<rparr>)"
| wa_recv: "\<not> wcrash s \<Longrightarrow> w < nw \<Longrightarrow> wst s w = Watching [] \<Longrightarrow> 0 < k \<Longrightarrow> k \<le> length (wch s w) \<Longrightarrow>
     w_step get put del nw m s
       (s\<lparr>wst := (wst s)(w := Watching (take k (wch s w))), wch := (wch s)(w := drop k (wch s w))\<rparr>)"
| wa_event: "\<not> wcrash s \<Longrightarrow> w < nw \<Longrightarrow> wst s w = Watching (e # es) \<Longrightarrow>
     watcher_event True e (wmap s) (wheap s) = Inr h' \<Longrightarrow>
     w_step get put del nw m s (s\<lparr>wst := (wst s)(w := Watching es), wheap := h'\<rparr>)"
| wa_panic: "\<not> wcrash s \<Longrightarrow> w < nw \<Longrightarrow> wst s w = Watching (e # es) \<Longrightarrow>
     watcher_event True e (wmap s) (wheap s) = Inl x \<Longrightarrow>
     w_step get put del nw m s (s\<lparr>wcrash := True\<rparr>)"
| wa_done: "\<not> wcrash s \<Longrightarrow> w < nw \<Longrightarrow> wst s w = Watching [] \<Longrightarrow> \<forall>i<m. writer_done (wph s i) \<Longrightarrow>
     w_step get put del nw m s (s\<lparr>wst := (wst s)(w := Stopped)\<rparr>)"

section \<open>The invariant\<close>

text \<open>Events a watcher has not handled, and the watchers' unhandled creates of key \<open>i\<close>.\<close>

definition pending :: "'e wsys \<Rightarrow> nat \<Rightarrow> event list" where
  "pending s w = (case wst s w of Watching es \<Rightarrow> es | Stopped \<Rightarrow> []) @ wch s w"

definition unseen :: "nat \<Rightarrow> 'e wsys \<Rightarrow> nat \<Rightarrow> nat" where
  "unseen nw s i = (\<Sum>w<nw. count_list (pending s w) (replica_key i, True))"

text \<open>
  What holds for call \<open>i\<close> at each point: \<open>g\<close> is its entry in etcd, \<open>p\<close> its entry in the watch
  map, \<open>c\<close> its counter and \<open>u\<close> the unhandled creates of its key.
\<close>

fun phase_ok :: "nat \<Rightarrow> nat \<Rightarrow> string option \<Rightarrow> nat option \<Rightarrow> int \<Rightarrow> nat \<Rightarrow> writer_pc \<Rightarrow> bool" where
  "phase_ok nw i g p c u WrIdle = (g = None \<and> u = 0)"
| "phase_ok nw i g p c u WrPublished = (g = None \<and> u = 0 \<and> p = Some i \<and> c = 0)"
| "phase_ok nw i g p c u WrAdded = (g = None \<and> u = 0 \<and> p = Some i \<and> c = int nw)"
| "phase_ok nw i g p c u WrPut = (g \<noteq> None \<and> p = Some i \<and> c = int u)"
| "phase_ok nw i g p c u WrWaited = (g \<noteq> None \<and> u = 0)"
| "phase_ok nw i g p c u (WrDone n) = (n = 1 \<and> u = 0)"

abbreviation call_ok :: "'e get_op \<Rightarrow> nat \<Rightarrow> 'e wsys \<Rightarrow> nat \<Rightarrow> bool" where
  "call_ok get nw s i \<equiv> phase_ok nw i (get (estore s) (replica_key i)) (wgs (wmap s) (replica_key i))
     (wheap s i) (unseen nw s i) (wph s i)"

text \<open>Creates are of the calls' keys, or of the key that watchers skip.\<close>

definition known :: "nat \<Rightarrow> event list \<Rightarrow> bool" where
  "known m es \<longleftrightarrow> (\<forall>e\<in>set es. snd e \<longrightarrow> fst e = dummy_key \<or> (\<exists>i<m. fst e = replica_key i))"

lemma writer_done_simps [simp]:
  "\<not> writer_done WrIdle" "\<not> writer_done WrPublished" "\<not> writer_done WrAdded" "\<not> writer_done WrPut"
  "\<not> writer_done WrWaited" "writer_done (WrDone n)"
  by (simp_all add: writer_done_def)

definition w_start :: "'e get_op \<Rightarrow> 'e put_op \<Rightarrow> 'e del_op \<Rightarrow> nat \<Rightarrow> 'e wsys \<Rightarrow> bool" where
  "w_start get put del m s \<longleftrightarrow> etcd_laws get put del \<and> (\<forall>i<m. get (estore s) (replica_key i) = None)
     \<and> wmap s = NewWatchMap \<and> wph s = (\<lambda>_. WrIdle) \<and> wch s = (\<lambda>_. []) \<and> wst s = (\<lambda>_. Watching [])
     \<and> \<not> wcrash s"

definition w_inv :: "'e get_op \<Rightarrow> 'e put_op \<Rightarrow> 'e del_op \<Rightarrow> nat \<Rightarrow> nat \<Rightarrow> 'e wsys \<Rightarrow> bool" where
  "w_inv get put del nw m s \<longleftrightarrow> etcd_laws get put del
     \<and> (\<forall>i<m. call_ok get nw s i)
     \<and> (\<forall>w<nw. known m (pending s w))
     \<and> ((\<exists>w<nw. wst s w = Stopped) \<longrightarrow> (\<forall>i<m. writer_done (wph s i)))
     \<and> \<not> wcrash s"

lemma w_start_inv: "w_start get put del m s \<Longrightarrow> w_inv get put del nw m s"
  by (simp add: w_start_def w_inv_def pending_def unseen_def known_def)

lemma pending_broadcast:
  "pending (s\<lparr>wch := broadcast nw evs (wch s)\<rparr>) w = pending s w @ (if w < nw then evs else [])"
  by (simp add: pending_def broadcast_def)

lemma unseen_broadcast:
  "unseen nw (s\<lparr>wch := broadcast nw evs (wch s)\<rparr>) i = unseen nw s i + nw * count_list evs (replica_key i, True)"
  by (simp add: unseen_def pending_broadcast sum.distrib)

lemma pending_frame [simp]:
  "pending (s\<lparr>estore := e\<rparr>) = pending s" "pending (s\<lparr>wmap := wm\<rparr>) = pending s"
  "pending (s\<lparr>wheap := h\<rparr>) = pending s" "pending (s\<lparr>wph := ph\<rparr>) = pending s"
  "pending (s\<lparr>wcrash := b\<rparr>) = pending s"
  by (simp_all add: pending_def fun_eq_iff)

lemma unseen_frame [simp]:
  "unseen nw (s\<lparr>estore := e\<rparr>) = unseen nw s" "unseen nw (s\<lparr>wmap := wm\<rparr>) = unseen nw s"
  "unseen nw (s\<lparr>wheap := h\<rparr>) = unseen nw s" "unseen nw (s\<lparr>wph := ph\<rparr>) = unseen nw s"
  "unseen nw (s\<lparr>wcrash := b\<rparr>) = unseen nw s"
  by (simp_all add: unseen_def fun_eq_iff)

lemma pending_recv:
  assumes "wst s w = Watching []"
  shows "pending (s\<lparr>wst := (wst s)(w := Watching (take k (wch s w))), wch := (wch s)(w := drop k (wch s w))\<rparr>) = pending s"
  using assms by (auto simp: pending_def)

lemma pending_handled:
  assumes "wst s w = Watching (e # es)"
  shows "pending (s\<lparr>wst := (wst s)(w := Watching es)\<rparr>) = (pending s)(w := tl (pending s w))"
    and "pending s w = e # tl (pending s w)"
  using assms by (auto simp: pending_def)

lemma unseen_handled:
  assumes "wst s w = Watching (e # es)" and "w < nw"
  shows "unseen nw s i = unseen nw (s\<lparr>wst := (wst s)(w := Watching es)\<rparr>) i + of_bool (e = (replica_key i, True))"
proof -
  let ?c = "\<lambda>es. count_list es (replica_key i, True)"
  have "?c (pending s w) = ?c (tl (pending s w)) + of_bool (e = (replica_key i, True))"
    by (subst pending_handled(2) [OF assms(1)]) simp
  with sum_upd [OF assms(2), of ?c "pending s" "tl (pending s w)"] show ?thesis
    by (simp add: unseen_def pending_handled(1) [OF assms(1)])
qed

lemma known_simps [simp]:
  "known m []" "known m (e # es) \<longleftrightarrow> (snd e \<longrightarrow> fst e = dummy_key \<or> (\<exists>i<m. fst e = replica_key i)) \<and> known m es"
  "known m (es @ fs) \<longleftrightarrow> known m es \<and> known m fs"
  by (auto simp: known_def)

lemma known_tl: "known m es \<Longrightarrow> known m (tl es)"
  by (cases es) auto

text \<open>An unhandled create belongs to a call that is waiting, and its counter is positive.\<close>

lemma create_pending:
  assumes "w_inv get put del nw m s" and "w < nw" and "(replica_key i, True) \<in> set (pending s w)" and "i < m"
  shows "wph s i = WrPut" and "wgs (wmap s) (replica_key i) = Some i" and "wheap s i = int (unseen nw s i)"
    and "0 < unseen nw s i"
proof -
  have "0 < count_list (pending s w) (replica_key i, True)"
    using assms(3) by (metis count_list_0_iff gr0I)
  also have "\<dots> \<le> unseen nw s i" unfolding unseen_def using assms(2) by (intro member_le_sum) auto
  finally show pos: "0 < unseen nw s i" .
  have "call_ok get nw s i" using assms(1,4) by (simp add: w_inv_def)
  with pos show "wph s i = WrPut" and "wgs (wmap s) (replica_key i) = Some i" and "wheap s i = int (unseen nw s i)"
    by (cases "wph s i"; simp)+
qed

text \<open>A watcher never finds a missing entry or a zero counter.\<close>

lemma watcher_event_ok:
  assumes "w_inv get put del nw m s" and "w < nw" and st: "wst s w = Watching (e # es)"
  obtains (other) "\<not> snd e \<or> fst e = dummy_key" "watcher_event True e (wmap s) (wheap s) = Inr (wheap s)"
  | (create) i where "i < m" "e = (replica_key i, True)" "call_ok get nw s i" "wph s i = WrPut" "0 < unseen nw s i"
      "watcher_event True e (wmap s) (wheap s) = Inr ((wheap s)(i := wheap s i - 1))"
proof (cases "snd e \<and> fst e \<noteq> dummy_key")
  case True
  have "known m (pending s w)" using assms(1,2) by (simp add: w_inv_def)
  then obtain i where i: "i < m" "fst e = replica_key i"
    using True by (subst (asm) pending_handled(2) [OF st]) auto
  with True have e: "e = (replica_key i, True)" by (metis prod.collapse)
  have "e \<in> set (pending s w)" by (subst pending_handled(2) [OF st]) simp
  note c = create_pending [OF assms(1,2) this [unfolded e] i(1)]
  have "watcher_event True e (wmap s) (wheap s) = Inr ((wheap s)(i := wheap s i - 1))"
    using c by (simp add: watcher_event_def e wm_Get_def wg_Done_def wg_Add_def)
  moreover have "call_ok get nw s i" using assms(1) i(1) by (simp add: w_inv_def)
  ultimately show ?thesis using create [OF i(1) e] c(1,4) by blast
next
  case False
  with other show ?thesis by (simp add: watcher_event_def)
qed

section \<open>Every step keeps the invariant\<close>

lemma w_inv_call:
  assumes "w_inv get put del nw m s" and "i < m"
  shows "call_ok get nw s i"
  using assms by (simp add: w_inv_def)

text \<open>A writer's step: what it changes is its own call, and what it broadcasts.\<close>

lemma w_inv_writer:
  assumes "w_inv get put del nw m s" and "\<not> wcrash t" and "wst t = wst s"
    and "\<And>w. w < nw \<Longrightarrow> known m (pending t w)" and "call_ok get nw t i"
    and "\<And>k. k < m \<Longrightarrow> k \<noteq> i \<Longrightarrow> call_ok get nw t k"
    and "writer_done (wph s i) \<longrightarrow> writer_done (wph t i)" and "\<And>k. k \<noteq> i \<Longrightarrow> wph t k = wph s k"
  shows "w_inv get put del nw m t"
proof -
  have "call_ok get nw t k" if "k < m" for k using assms(5,6) that by (cases "k = i") auto
  moreover have "writer_done (wph s k) \<longrightarrow> writer_done (wph t k)" for k using assms(7,8) by (cases "k = i") auto
  ultimately show ?thesis using assms(1-4) by (auto simp: w_inv_def)
qed

lemma w_inv_publish:
  assumes "w_inv get put del nw m s" and "i < m" and "wph s i = WrIdle"
    and "wm_publish (replica_key i) i (wmap s) (wheap s) = (wm', h')"
  shows "w_inv get put del nw m (s\<lparr>wmap := wm', wheap := h', wph := (wph s)(i := WrPublished)\<rparr>)"
  using assms w_inv_call [OF assms(1)] w_inv_call [OF assms(1,2)]
  by (intro w_inv_writer [OF assms(1), where i = i]) (auto simp: w_inv_def wm_publish_def)

lemma w_inv_add:
  assumes "w_inv get put del nw m s" and "i < m" and "wph s i = WrPublished"
    and "wm_add (int nw) i (wheap s) = Inr h'"
  shows "w_inv get put del nw m (s\<lparr>wheap := h', wph := (wph s)(i := WrAdded)\<rparr>)"
  using assms w_inv_call [OF assms(1)] w_inv_call [OF assms(1,2)]
  by (intro w_inv_writer [OF assms(1), where i = i])
    (auto simp: w_inv_def wm_add_def wg_Add_def split: if_splits)

lemma w_inv_put:
  assumes "w_inv get put del nw m s" and "i < m" and "wph s i = WrAdded"
    and "put (estore s) (replica_key i) (replica_addr i) = (e', evs)"
  shows "w_inv get put del nw m (s\<lparr>estore := e', wch := broadcast nw evs (wch s), wph := (wph s)(i := WrPut)\<rparr>)"
proof -
  have "etcd_laws get put del" using assms(1) by (simp add: w_inv_def)
  then have e': "get e' = (get (estore s))(replica_key i \<mapsto> replica_addr i)"
    and "evs = [(replica_key i, get (estore s) (replica_key i) = None)]"
    using assms(4) unfolding etcd_laws_def by (metis fst_conv, metis snd_conv)
  with w_inv_call [OF assms(1,2)] assms(3) have evs: "evs = [(replica_key i, True)]" by simp
  show ?thesis
    using assms(1-3) w_inv_call [OF assms(1)] w_inv_call [OF assms(1,2)] e' evs
    by (intro w_inv_writer [OF assms(1), where i = i])
      (auto simp: w_inv_def pending_broadcast [where s = "s\<lparr>estore := e'\<rparr>", simplified]
        unseen_broadcast [where s = "s\<lparr>estore := e'\<rparr>", simplified])
qed

lemma w_inv_delete:
  assumes "w_inv get put del nw m s" and "i < m" and "wph s i = WrWaited"
    and "del (estore s) (replica_key i) = (e', deleted, evs)"
  shows "w_inv get put del nw m
    (s\<lparr>estore := e', wch := broadcast nw evs (wch s), wph := (wph s)(i := WrDone deleted)\<rparr>)"
proof -
  have "etcd_laws get put del" using assms(1) by (simp add: w_inv_def)
  then have e': "get e' = (get (estore s))(replica_key i := None)"
    and "(deleted, evs) = (if get (estore s) (replica_key i) = None then (0, []) else (1, [(replica_key i, False)]))"
    using assms(4) unfolding etcd_laws_def by (metis fst_conv, metis snd_conv)
  with w_inv_call [OF assms(1,2)] assms(3) have evs: "deleted = 1" "evs = [(replica_key i, False)]" by auto
  show ?thesis
    using assms(1-3) w_inv_call [OF assms(1)] w_inv_call [OF assms(1,2)] e' evs
    by (intro w_inv_writer [OF assms(1), where i = i])
      (auto simp: w_inv_def writer_done_def pending_broadcast [where s = "s\<lparr>estore := e'\<rparr>", simplified]
        unseen_broadcast [where s = "s\<lparr>estore := e'\<rparr>", simplified])
qed

lemma w_inv_recv:
  assumes "w_inv get put del nw m s" and "wst s w = Watching []"
  shows "w_inv get put del nw m
    (s\<lparr>wst := (wst s)(w := Watching (take k (wch s w))), wch := (wch s)(w := drop k (wch s w))\<rparr>)"
  using assms(1) unfolding w_inv_def unseen_def pending_recv [OF assms(2)] by auto

lemma w_inv_event:
  assumes "w_inv get put del nw m s" and "w < nw" and st: "wst s w = Watching (e # es)"
    and "watcher_event True e (wmap s) (wheap s) = Inr h'"
  shows "w_inv get put del nw m (s\<lparr>wst := (wst s)(w := Watching es), wheap := h'\<rparr>)"
proof -
  let ?u = "s\<lparr>wst := (wst s)(w := Watching es)\<rparr>"
  let ?t = "?u\<lparr>wheap := h'\<rparr>"
  have seen: "unseen nw s i = unseen nw ?t i + of_bool (e = (replica_key i, True))" for i
    using unseen_handled [OF st assms(2)] by simp
  have calls: "call_ok get nw ?t i" if "i < m" for i
    using assms(1-3)
  proof (cases rule: watcher_event_ok)
    case other
    then have "h' = wheap s" and "unseen nw ?t i = unseen nw s i" using assms(4) seen [of i] by auto
    with w_inv_call [OF assms(1) that] show ?thesis by simp
  next
    case (create k)
    then have h': "h' = (wheap s)(k := wheap s k - 1)" using assms(4) by simp
    show ?thesis
    proof (cases "i = k")
      case True
      with create(3,4) h' seen [of i] create(2) show ?thesis by simp
    next
      case False
      with create(2) seen [of i] have "unseen nw ?t i = unseen nw s i" by simp
      with False h' w_inv_call [OF assms(1) that] show ?thesis by simp
    qed
  qed
  have "known m (pending ?t w')" if "w' < nw" for w'
    using assms(1) that by (simp add: pending_handled(1) [OF st] w_inv_def known_tl)
  moreover have "wst s w' = Stopped" if "wst ?t w' = Stopped" for w'
    using that by (cases "w' = w") simp_all
  moreover have "wph ?t = wph s" "wcrash ?t = wcrash s" by simp_all
  ultimately show "w_inv get put del nw m ?t" using assms(1) calls unfolding w_inv_def by metis
qed

lemma w_inv_done:
  assumes "w_inv get put del nw m s" and "wst s w = Watching []" and "\<forall>i<m. writer_done (wph s i)"
  shows "w_inv get put del nw m (s\<lparr>wst := (wst s)(w := Stopped)\<rparr>)"
proof -
  have "pending (s\<lparr>wst := (wst s)(w := Stopped)\<rparr>) = pending s"
    using assms(2) by (auto simp: pending_def)
  with assms(1,3) show ?thesis by (simp add: w_inv_def unseen_def)
qed

lemma w_inv_step:
  assumes "w_inv get put del nw m s" and "w_step get put del nw m s t"
  shows "w_inv get put del nw m t"
  using assms(2)
proof (cases rule: w_step.cases)
  case (wr_add_panic i)
  with w_inv_call [OF assms(1) wr_add_panic(3)] show ?thesis
    by (simp add: wm_add_def wg_Add_def)
next
  case (wr_wait i)
  have "call_ok get nw s i" using w_inv_call [OF assms(1) wr_wait(3)] .
  with wr_wait assms(1) w_inv_call [OF assms(1)] show ?thesis
    by (auto intro!: w_inv_writer [OF assms(1), where i = i] simp: w_inv_def)
next
  case (wa_panic w e es)
  from assms(1) wa_panic(3,4) show ?thesis
    by (cases rule: watcher_event_ok) (use wa_panic(5) in simp_all)
qed (use assms(1) in \<open>auto intro: w_inv_publish w_inv_add w_inv_put w_inv_delete w_inv_recv w_inv_event w_inv_done\<close>)

interpretation wat: machine_invariant "w_start get put del m" "w_step get put del nw m" "w_inv get put del nw m"
  by unfold_locales (auto intro: w_start_inv w_inv_step)

section \<open>Progress\<close>

fun writer_weight :: "nat \<Rightarrow> writer_pc \<Rightarrow> nat" where
  "writer_weight nw WrIdle = 4 * nw + 5"
| "writer_weight nw WrPublished = 4 * nw + 4"
| "writer_weight nw WrAdded = 4 * nw + 3"
| "writer_weight nw WrPut = 2 * nw + 2"
| "writer_weight nw WrWaited = 2 * nw + 1"
| "writer_weight nw (WrDone n) = 0"

fun watcher_weight :: "watcher_st \<Rightarrow> nat" where
  "watcher_weight (Watching es) = Suc (length es)"
| "watcher_weight Stopped = 0"

definition w_budget :: "nat \<Rightarrow> nat \<Rightarrow> 'e wsys \<Rightarrow> nat" where
  "w_budget nw m s = (\<Sum>i<m. writer_weight nw (wph s i)) + (\<Sum>w<nw. watcher_weight (wst s w))
     + (\<Sum>w<nw. 2 * length (wch s w))"

definition w_goal :: "nat \<Rightarrow> nat \<Rightarrow> 'e wsys \<Rightarrow> bool" where
  "w_goal nw m s \<longleftrightarrow> (\<forall>i<m. wph s i = WrDone 1) \<and> (\<forall>w<nw. wst s w = Stopped)"

lemma sum_broadcast: "(\<Sum>w<nw. 2 * length (broadcast nw evs ch w)) = (\<Sum>w<nw. 2 * length (ch w)) + 2 * nw * length evs"
  by (simp add: broadcast_def sum.distrib algebra_simps)

lemma etcd_events_le:
  assumes "etcd_laws get put del"
  shows "put e k v = (e', evs) \<Longrightarrow> length evs \<le> 1" and "del e k = (e', n, evs) \<Longrightarrow> length evs \<le> 1"
proof -
  have p: "snd (put e k v) = [(k, get e k = None)]"
    and d: "snd (del e k) = (if get e k = None then (0, []) else (1, [(k, False)]))"
    using assms by (simp_all add: etcd_laws_def)
  show "put e k v = (e', evs) \<Longrightarrow> length evs \<le> 1" using p by simp
  show "del e k = (e', n, evs) \<Longrightarrow> length evs \<le> 1" using d by (simp split: if_splits)
qed

lemma w_budget_writer:
  assumes "i < m" and "wph t = (wph s)(i := p)" and "wst t = wst s" and "wch t = wch s"
    and "writer_weight nw p < writer_weight nw (wph s i)"
  shows "w_budget nw m t < w_budget nw m s"
  using sum_upd [OF assms(1), of "writer_weight nw" "wph s" p] assms by (simp add: w_budget_def del: fun_upd_apply)

lemma w_budget_broadcast:
  assumes "i < m" and "wph t = (wph s)(i := p)" and "wst t = wst s" and "wch t = broadcast nw evs (wch s)"
    and "length evs \<le> 1" and "writer_weight nw p + 2 * nw < writer_weight nw (wph s i)"
  shows "w_budget nw m t < w_budget nw m s"
proof -
  have "length evs = 0 \<or> length evs = 1" using assms(5) by linarith
  with sum_upd [OF assms(1), of "writer_weight nw" "wph s" p] assms show ?thesis
    by (auto simp: w_budget_def sum_broadcast simp del: fun_upd_apply)
qed

lemma w_budget_watcher:
  assumes "w < nw" and "wph t = wph s" and "wst t = (wst s)(w := p)" and "wch t = wch s"
    and "watcher_weight p < watcher_weight (wst s w)"
  shows "w_budget nw m t < w_budget nw m s"
  using sum_upd [OF assms(1), of watcher_weight "wst s" p] assms by (simp add: w_budget_def del: fun_upd_apply)

lemma w_budget_step:
  assumes "w_inv get put del nw m s" and "w_step get put del nw m s t"
  shows "w_budget nw m t < w_budget nw m s"
proof -
  have laws: "etcd_laws get put del" and "\<not> wcrash t"
    using assms wat.inv_step [of get put del nw m s t] by (simp_all add: w_inv_def)
  from assms(2) show ?thesis
  proof (cases rule: w_step.cases)
    case (wr_put i e' evs)
    with etcd_events_le(1) [OF laws wr_put(5)] show ?thesis by (intro w_budget_broadcast [where i = i and p = WrPut]) simp_all
  next
    case (wr_delete i e' n evs)
    with etcd_events_le(2) [OF laws wr_delete(5)] show ?thesis by (intro w_budget_broadcast [where i = i and p = "WrDone n"]) simp_all
  next
    case (wa_recv w k)
    then show ?thesis
      using sum_upd [OF wa_recv(3), of watcher_weight "wst s" "Watching (take k (wch s w))"]
        sum_upd [OF wa_recv(3), of "\<lambda>es. 2 * length es" "wch s" "drop k (wch s w)"]
      by (simp add: w_budget_def del: fun_upd_apply)
  qed (use \<open>\<not> wcrash t\<close> in \<open>auto intro: w_budget_writer w_budget_watcher\<close>)
qed

lemma busy_watcher_steps:
  assumes "w_inv get put del nw m s" and "w < nw" and "wst s w = Watching es" and "es @ wch s w \<noteq> []"
  shows "\<exists>t. w_step get put del nw m s t"
proof (cases es)
  case Nil
  have c: "\<not> wcrash s" using assms(1) by (simp add: w_inv_def)
  from Nil assms wa_recv [OF c assms(2), of 1] show ?thesis by (cases "wch s w") (auto, blast)
next
  case (Cons e fs)
  have c: "\<not> wcrash s" using assms(1) by (simp add: w_inv_def)
  from Cons assms(3) have st: "wst s w = Watching (e # fs)" by simp
  from assms(1,2) st show ?thesis
    by (cases rule: watcher_event_ok) (use wa_event [OF c assms(2) st] in blast)+
qed

lemma w_not_stuck:
  assumes inv: "w_inv get put del nw m s" and "\<not> w_goal nw m s"
  shows "\<exists>t. w_step get put del nw m s t"
proof -
  have c: "\<not> wcrash s" using inv by (simp add: w_inv_def)
  show ?thesis
  proof (cases "\<forall>i<m. writer_done (wph s i)")
    case True
    then have "\<forall>i<m. wph s i = WrDone 1" using w_inv_call [OF inv] by (fastforce simp: writer_done_def)
    with assms(2) obtain w where w: "w < nw" "wst s w \<noteq> Stopped" by (auto simp: w_goal_def)
    then obtain es where es: "wst s w = Watching es" by (cases "wst s w") auto
    show ?thesis
    proof (cases es)
      case Nil
      with es wa_done [OF c w(1) _ True] show ?thesis by blast
    next
      case (Cons e fs)
      with busy_watcher_steps [OF inv w(1) es] show ?thesis by simp
    qed
  next
    case False
    then obtain i where i: "i < m" "\<not> writer_done (wph s i)" by blast
    show ?thesis
    proof (cases "wph s i")
      case WrIdle
      with wr_publish [OF c i(1)] show ?thesis by (metis surj_pair)
    next
      case WrPublished
      with w_inv_call [OF inv i(1)] have "wm_add (int nw) i (wheap s) = Inr ((wheap s)(i := int nw))"
        by (simp add: wm_add_def wg_Add_def)
      with wr_add [OF c i(1) WrPublished] show ?thesis by blast
    next
      case WrAdded
      with wr_put [OF c i(1)] show ?thesis by (metis surj_pair)
    next
      case WrWaited
      with wr_delete [OF c i(1)] show ?thesis by (metis surj_pair)
    next
      case WrPut
      show ?thesis
      proof (cases "wheap s i = 0")
        case True
        with wr_wait [OF c i(1) WrPut] show ?thesis by blast
      next
        case heap: False
        with w_inv_call [OF inv i(1)] WrPut have "unseen nw s i \<noteq> 0" by simp
        then obtain w where w: "w < nw" "count_list (pending s w) (replica_key i, True) \<noteq> 0"
          by (auto simp: unseen_def)
        then have ne: "pending s w \<noteq> []" by auto
        have "wst s w \<noteq> Stopped" using inv w(1) False by (auto simp: w_inv_def)
        then obtain es where "wst s w = Watching es" by (cases "wst s w") auto
        with busy_watcher_steps [OF inv w(1)] ne show ?thesis by (simp add: pending_def)
      qed
    qed (use i in simp)
  qed
qed

interpretation wap: machine_progress "w_start get put del m" "w_step get put del nw m" "w_inv get put del nw m"
  "w_budget nw m" "w_goal nw m"
  by unfold_locales (auto intro: w_budget_step w_not_stuck)

section \<open>Properties\<close>

text \<open>An etcd that is just its map, for the examples.\<close>

definition map_put :: "(string \<rightharpoonup> string) \<Rightarrow> string \<Rightarrow> string \<Rightarrow> (string \<rightharpoonup> string) \<times> event list" where
  "map_put e k v = (e(k \<mapsto> v), [(k, e k = None)])"

definition map_del :: "(string \<rightharpoonup> string) \<Rightarrow> string \<Rightarrow> (string \<rightharpoonup> string) \<times> nat \<times> event list" where
  "map_del e k = (e(k := None), if e k = None then (0, []) else (1, [(k, False)]))"

lemma map_laws: "etcd_laws (\<lambda>e. e) map_put map_del"
  by (simp add: etcd_laws_def map_put_def map_del_def)

definition demo_wsys :: "(string \<rightharpoonup> string) wsys" where
  "demo_wsys = \<lparr>estore = Map.empty, wmap = NewWatchMap, wheap = (\<lambda>_. 0), wph = (\<lambda>_. WrIdle), wch = (\<lambda>_. []),
     wst = (\<lambda>_. Watching []), wcrash = False\<rparr>"

lemma demo_wsys: "w_start (\<lambda>e. e) map_put map_del m demo_wsys"
  by (simp add: w_start_def demo_wsys_def map_laws)

lemma demo_goal:
  "\<exists>s. reach (w_start (\<lambda>e. e) map_put map_del 2) (w_step (\<lambda>e. e) map_put map_del 3 2) s \<and> w_goal 3 2 s"
proof -
  obtain s where s: "(w_step (\<lambda>e. e) map_put map_del 3 2)\<^sup>*\<^sup>* demo_wsys s" "w_goal 3 2 s"
    using wap.reaches_goal [OF w_start_inv [OF demo_wsys], of 3 2] by blast
  have "reach (w_start (\<lambda>e. e) map_put map_del 2) (w_step (\<lambda>e. e) map_put map_del 3 2) demo_wsys"
    by (rule reach_start) (rule demo_wsys)
  from reach_trans [OF s(1) this] s(2) show ?thesis by (intro exI [of _ s] conjI)
qed

text \<open>
  C7. No interleaving of writers and watchers panics: a watcher that hears of a create always
  finds its wait group, with a positive counter. And the latency is measured to the right
  moment: once a writer's \<open>Wait\<close> has returned, no watcher has the create of its key unhandled.
\<close>

theorem watchers_acknowledge:
  assumes "reach (w_start get put del m) (w_step get put del nw m) s" and "i < m" and "w < nw"
    and "wph s i \<in> {WrWaited, WrDone n}"
  shows "\<not> wcrash s \<and> (replica_key i, True) \<notin> set (pending s w)"
proof -
  have inv: "w_inv get put del nw m s" using wat.reach_inv [OF assms(1)] .
  with create_pending(1) [OF inv assms(3) _ assms(2)] assms(4) show ?thesis by (auto simp: w_inv_def)
qed

theorem watchers_acknowledge_witness:
  "\<exists>s :: (string \<rightharpoonup> string) wsys. wph s 1 = WrDone 1 \<and> \<not> wcrash s \<and> (replica_key 1, True) \<notin> set (pending s 2)"
proof -
  obtain s where s: "reach (w_start (\<lambda>e. e) map_put map_del 2) (w_step (\<lambda>e. e) map_put map_del 3 2) s"
    "w_goal 3 2 s" using demo_goal by blast
  then have "wph s 1 = WrDone 1" by (simp add: w_goal_def)
  with watchers_acknowledge [OF s(1), of 1 2 1] show ?thesis by auto
qed

text \<open>
  C12. The test comes to an end: every run is finite, from every state it can be continued to
  the end, and when no step is left every call has deleted exactly one entry and every
  watcher has received its \<open>done\<close>.
\<close>

theorem watch_test_finishes:
  assumes "w_start get put del m s"
  shows "(\<forall>ts. run_from (w_step get put del nw m) s ts \<longrightarrow> length ts \<le> m * (4 * nw + 5) + nw)
    \<and> (\<forall>t. (w_step get put del nw m)\<^sup>*\<^sup>* s t \<longrightarrow> (\<exists>u. (w_step get put del nw m)\<^sup>*\<^sup>* t u \<and> w_goal nw m u))
    \<and> (\<forall>t. (w_step get put del nw m)\<^sup>*\<^sup>* s t \<longrightarrow> (\<nexists>u. w_step get put del nw m t u) \<longrightarrow> w_goal nw m t)"
proof -
  note inv = w_start_inv [OF assms, of nw]
  note at = wat.steps_inv [OF _ inv]
  have "w_budget nw m s = m * (4 * nw + 5) + nw" using assms by (simp add: w_budget_def w_start_def)
  with wap.run_bounded [OF inv] wap.reaches_goal [OF at] wap.maximal_run_at_goal [OF at] show ?thesis
    by metis
qed

theorem watch_test_finishes_witness:
  "\<exists>u. (w_step (\<lambda>e. e) map_put map_del 3 2)\<^sup>*\<^sup>* demo_wsys u \<and> wph u 0 = WrDone 1 \<and> wph u 1 = WrDone 1"
proof -
  obtain u where "(w_step (\<lambda>e. e) map_put map_del 3 2)\<^sup>*\<^sup>* demo_wsys u" "w_goal 3 2 u"
    using conjunct1 [OF conjunct2 [OF watch_test_finishes [OF demo_wsys]], of 3 2] by (meson rtranclp.rtrancl_refl)
  then show ?thesis by (intro exI [of _ u]) (simp add: w_goal_def)
qed

text \<open>
  The watch map relies on the caller's order: between the moment \<open>Add\<close> publishes the wait
  group and the moment it adds to the counter, a watcher that hears of the key panics on the
  zero counter, and before that moment on the missing entry. Afterwards it counts down.
\<close>

theorem publish_before_add:
  "(let (wm1, h1) = wm_publish (replica_key i) p NewWatchMap h in
     watcher_event True (replica_key i, True) NewWatchMap h = Inl (Panic ''nil pointer dereference'')
     \<and> watcher_event True (replica_key i, True) wm1 h1 = Inl (Panic ''sync: negative WaitGroup counter'')
     \<and> wm_add (int nw + 1) p h1 = Inr (h1(p := int nw + 1))
     \<and> watcher_event True (replica_key i, True) wm1 (h1(p := int nw + 1)) = Inr (h1(p := int nw)))"
  by (simp add: wm_publish_def watcher_event_def wm_Get_def NewWatchMap_def wg_Done_def wg_Add_def wm_add_def)

end
