(* ===== verification/WatchAdd.thy ===== *)
theory WatchAdd
  imports WatchMap
begin

text \<open>
  \<open>TestRegisterDeregisterWatchAddWatchers\<close> of \<open>etcd/load_test/load_test.go\<close>: the writers and
  watchers of the stable-set test, together with watchers that come, handle one response
  without acknowledging anything and go, and a goroutine that puts and deletes a dummy key
  to release them.
\<close>

section \<open>The test\<close>

text \<open>
  A one-shot watcher: not called, watching, handling the events of a response, returned.
  Which events its response has is left open.
\<close>

datatype once_st = OIdle | OWatching | OHandling "event list" | OReturned

text \<open>\<open>dput\<close>: the dummy key has been put and not yet deleted; \<open>ddel\<close>: what its deletes reported.\<close>

record 'e asys =
  base :: "'e wsys"
  once :: "nat \<Rightarrow> once_st"
  dput :: bool
  ddel :: "nat list"

definition a_start :: "'e get_op \<Rightarrow> 'e put_op \<Rightarrow> 'e del_op \<Rightarrow> nat \<Rightarrow> 'e asys \<Rightarrow> bool" where
  "a_start get put del m s \<longleftrightarrow> w_start get put del m (base s) \<and> once s = (\<lambda>_. OIdle) \<and> \<not> dput s \<and> ddel s = []"

inductive a_step :: "'e get_op \<Rightarrow> 'e put_op \<Rightarrow> 'e del_op \<Rightarrow> nat \<Rightarrow> nat \<Rightarrow> 'e asys \<Rightarrow> 'e asys \<Rightarrow> bool"
  for get :: "'e get_op" and put :: "'e put_op" and del :: "'e del_op" and nw :: nat and m :: nat where
  a_base: "w_step get put del nw m (base s) b \<Longrightarrow> a_step get put del nw m s (s\<lparr>base := b\<rparr>)"
| o_watch: "\<not> wcrash (base s) \<Longrightarrow> once s j = OIdle \<Longrightarrow>
     a_step get put del nw m s (s\<lparr>once := (once s)(j := OWatching)\<rparr>)"
| o_recv: "\<not> wcrash (base s) \<Longrightarrow> once s j = OWatching \<Longrightarrow>
     a_step get put del nw m s (s\<lparr>once := (once s)(j := OHandling es)\<rparr>)"
| o_event: "\<not> wcrash (base s) \<Longrightarrow> once s j = OHandling (e # es) \<Longrightarrow>
     watcher_event False e (wmap (base s)) (wheap (base s)) = Inr h' \<Longrightarrow>
     a_step get put del nw m s (s\<lparr>base := (base s)\<lparr>wheap := h'\<rparr>, once := (once s)(j := OHandling es)\<rparr>)"
| o_panic: "\<not> wcrash (base s) \<Longrightarrow> once s j = OHandling (e # es) \<Longrightarrow>
     watcher_event False e (wmap (base s)) (wheap (base s)) = Inl x \<Longrightarrow>
     a_step get put del nw m s (s\<lparr>base := (base s)\<lparr>wcrash := True\<rparr>\<rparr>)"
| o_return: "\<not> wcrash (base s) \<Longrightarrow> once s j = OHandling [] \<Longrightarrow>
     a_step get put del nw m s (s\<lparr>once := (once s)(j := OReturned)\<rparr>)"
| d_put: "\<not> wcrash (base s) \<Longrightarrow> \<not> dput s \<Longrightarrow> put (estore (base s)) dummy_key ''yyy'' = (e', evs) \<Longrightarrow>
     a_step get put del nw m s
       (s\<lparr>base := (base s)\<lparr>estore := e', wch := broadcast nw evs (wch (base s))\<rparr>, dput := True\<rparr>)"
| d_del: "\<not> wcrash (base s) \<Longrightarrow> dput s \<Longrightarrow> del (estore (base s)) dummy_key = (e', k, evs) \<Longrightarrow>
     a_step get put del nw m s
       (s\<lparr>base := (base s)\<lparr>estore := e', wch := broadcast nw evs (wch (base s))\<rparr>, dput := False, ddel := ddel s @ [k]\<rparr>)"

section \<open>The invariant\<close>

definition a_inv :: "'e get_op \<Rightarrow> 'e put_op \<Rightarrow> 'e del_op \<Rightarrow> nat \<Rightarrow> nat \<Rightarrow> 'e asys \<Rightarrow> bool" where
  "a_inv get put del nw m s \<longleftrightarrow> w_inv get put del nw m (base s)
     \<and> (dput s \<longrightarrow> get (estore (base s)) dummy_key \<noteq> None) \<and> list_all (\<lambda>k. k = 1) (ddel s)"

lemma not_dummy [simp]: "dummy_key \<noteq> replica_key i"
  using replica_key_not_dummy [of i] by metis

text \<open>The calls of the load generator do not touch the dummy key.\<close>

lemma w_step_dummy:
  assumes "etcd_laws get put del" and "w_step get put del nw m s t"
  shows "get (estore t) dummy_key = get (estore s) dummy_key"
  using assms(2)
proof cases
  case (wr_put i e' evs)
  then have "get e' = (get (estore s))(replica_key i \<mapsto> replica_addr i)"
    using assms(1) unfolding etcd_laws_def by (metis fst_conv)
  with wr_put show ?thesis by simp
next
  case (wr_delete i e' k evs)
  then have "get e' = (get (estore s))(replica_key i := None)"
    using assms(1) unfolding etcd_laws_def by (metis fst_conv)
  with wr_delete show ?thesis by simp
qed simp_all

lemma once_event [simp]: "watcher_event False e wm h = Inr h"
  by (simp add: watcher_event_def)

text \<open>A write to the dummy key: the calls' entries stay, and watchers get an event they skip.\<close>

lemma w_inv_dummy:
  assumes "w_inv get put del nw m s" and "\<And>i. get e' (replica_key i) = get (estore s) (replica_key i)"
    and "\<forall>e\<in>set evs. fst e = dummy_key"
  shows "w_inv get put del nw m (s\<lparr>estore := e', wch := broadcast nw evs (wch s)\<rparr>)"
proof -
  have "count_list evs (replica_key i, True) = 0" for i
    using assms(3) by (auto simp: count_list_0_iff)
  then have u: "unseen nw (s\<lparr>estore := e', wch := broadcast nw evs (wch s)\<rparr>) i = unseen nw s i" for i
    using unseen_broadcast [where s = "s\<lparr>estore := e'\<rparr>"] by simp
  have "known m evs" using assms(3) by (auto simp: known_def)
  then have k: "known m (pending (s\<lparr>estore := e', wch := broadcast nw evs (wch s)\<rparr>) w)" if "w < nw" for w
    using pending_broadcast [where s = "s\<lparr>estore := e'\<rparr>"] assms(1) that by (simp add: w_inv_def)
  show ?thesis using assms(1) k by (simp add: w_inv_def u assms(2))
qed

lemma a_inv_step:
  assumes "a_inv get put del nw m s" and "a_step get put del nw m s t"
  shows "a_inv get put del nw m t"
proof -
  have inv: "w_inv get put del nw m (base s)" using assms(1) by (simp add: a_inv_def)
  then have laws: "etcd_laws get put del" by (simp add: w_inv_def)
  from assms(2) show ?thesis
  proof cases
    case (a_base b)
    with w_step_dummy [OF laws a_base(2)] wat.inv_step [OF inv a_base(2)] assms(1) show ?thesis
      by (simp add: a_inv_def)
  next
    case (o_event j e es h')
    then have "base t = base s" "dput t = dput s" "ddel t = ddel s" by simp_all
    with assms(1) show ?thesis unfolding a_inv_def by metis
  next
    case (d_put e' evs)
    then have e': "get e' = (get (estore (base s)))(dummy_key \<mapsto> ''yyy'')" and "\<forall>e\<in>set evs. fst e = dummy_key"
      using laws unfolding etcd_laws_def by (metis fst_conv, metis empty_iff empty_set fst_conv set_ConsD snd_conv)
    then have "w_inv get put del nw m ((base s)\<lparr>estore := e', wch := broadcast nw evs (wch (base s))\<rparr>)"
      by (intro w_inv_dummy [OF inv]) (simp_all add: not_dummy [symmetric] del: not_dummy)
    with d_put e' assms(1) show ?thesis by (simp add: a_inv_def)
  next
    case (d_del e' k evs)
    then have some: "get (estore (base s)) dummy_key \<noteq> None" using assms(1) by (simp add: a_inv_def)
    have "get (fst (del (estore (base s)) dummy_key)) = (get (estore (base s)))(dummy_key := None)"
      and "snd (del (estore (base s)) dummy_key) = (1, [(dummy_key, False)])"
      using laws some by (auto simp: etcd_laws_def)
    then have e': "get e' = (get (estore (base s)))(dummy_key := None)" and "k = 1" "evs = [(dummy_key, False)]"
      using d_del by simp_all
    then have "w_inv get put del nw m ((base s)\<lparr>estore := e', wch := broadcast nw evs (wch (base s))\<rparr>)"
      by (intro w_inv_dummy [OF inv]) (simp_all add: not_dummy [symmetric] del: not_dummy)
    with d_del \<open>k = 1\<close> assms(1) show ?thesis by (simp add: a_inv_def)
  qed (use assms(1) in \<open>simp_all add: a_inv_def\<close>)
qed

interpretation waa: machine_invariant "a_start get put del m" "a_step get put del nw m" "a_inv get put del nw m"
  by unfold_locales (simp add: a_start_def a_inv_def w_start_inv, rule a_inv_step)

text \<open>A run of the stable-set test is a run of this one, without visitors.\<close>

lemma base_run:
  "(w_step get put del nw m)\<^sup>*\<^sup>* b b' \<Longrightarrow> (a_step get put del nw m)\<^sup>*\<^sup>* (s\<lparr>base := b\<rparr>) (s\<lparr>base := b'\<rparr>)"
proof (induction rule: rtranclp_induct)
  case (step c d)
  have "a_step get put del nw m (s\<lparr>base := c\<rparr>) (s\<lparr>base := d\<rparr>)" using a_base [of get put del nw m "s\<lparr>base := c\<rparr>" d] step(2) by simp
  with step(3) show ?case by simp
qed simp

section \<open>Properties\<close>

text \<open>
  C39. Watchers that come and go do not disturb the test. In every interleaving of writers,
  stable watchers, one-shot watchers and the dummy key nobody panics; when a writer's \<open>Wait\<close>
  has returned, no stable watcher has the create of its key unhandled; and every delete of
  the dummy key removes exactly one entry.
\<close>

theorem add_watchers_harmless:
  assumes "reach (a_start get put del m) (a_step get put del nw m) s"
  shows "\<not> wcrash (base s) \<and> list_all (\<lambda>k. k = 1) (ddel s)
    \<and> (\<forall>i<m. \<forall>w<nw. wph (base s) i = WrWaited \<or> writer_done (wph (base s) i) \<longrightarrow>
        (replica_key i, True) \<notin> set (pending (base s) w))
    \<and> (\<forall>i<m. writer_done (wph (base s) i) \<longrightarrow> wph (base s) i = WrDone 1)"
proof -
  have inv: "w_inv get put del nw m (base s)" and "list_all (\<lambda>k. k = 1) (ddel s)"
    using waa.reach_inv [OF assms] by (simp_all add: a_inv_def)
  moreover have "(replica_key i, True) \<notin> set (pending (base s) w)"
    if "i < m" "w < nw" "wph (base s) i = WrWaited \<or> writer_done (wph (base s) i)" for i w
    using create_pending(1) [OF inv that(2) _ that(1)] that(3) by (auto simp: writer_done_def)
  moreover have "wph (base s) i = WrDone 1" if "i < m" "writer_done (wph (base s) i)" for i
    using w_inv_call [OF inv that(1)] that(2) by (auto simp: writer_done_def)
  ultimately show ?thesis by (simp add: w_inv_def)
qed

theorem add_watchers_harmless_witness:
  "\<exists>s :: (string \<rightharpoonup> string) asys. ddel s = [1] \<and> wph (base s) 0 = WrDone 1 \<and> \<not> wcrash (base s)"
proof -
  let ?step = "a_step (\<lambda>e. e) map_put map_del 3 2" and ?start = "a_start (\<lambda>e. e) map_put map_del 2"
  let ?s0 = "\<lparr>base = demo_wsys, once = (\<lambda>_. OIdle), dput = False, ddel = []\<rparr>"
  obtain b where b: "(w_step (\<lambda>e. e) map_put map_del 3 2)\<^sup>*\<^sup>* demo_wsys b" "w_goal 3 2 b"
    using wap.reaches_goal [OF w_start_inv [OF demo_wsys], of 3 2] by blast
  have "reach ?start ?step ?s0" by (rule reach_start) (simp add: a_start_def demo_wsys)
  then have r: "reach ?start ?step (?s0\<lparr>base := b\<rparr>)"
    using base_run [OF b(1), of ?s0] reach_trans by fastforce
  let ?s1 = "?s0\<lparr>base := b\<rparr>"
  have "\<not> wcrash b" using add_watchers_harmless [OF r] by simp
  define s2 where "s2 = ?s1\<lparr>base := b\<lparr>estore := (estore b)(dummy_key \<mapsto> ''yyy''),
      wch := broadcast 3 [(dummy_key, estore b dummy_key = None)] (wch b)\<rparr>, dput := True\<rparr>"
  have "?step ?s1 s2"
    using d_put [of ?s1 map_put] \<open>\<not> wcrash b\<close> by (simp add: map_put_def s2_def)
  with r have r2: "reach ?start ?step s2" by (rule reach_step)
  have "\<exists>t. ?step s2 t \<and> ddel t = [1] \<and> wph (base t) = wph b"
    using d_del [of s2 map_del] \<open>\<not> wcrash b\<close> by (force simp: map_del_def s2_def)
  then obtain t where "reach ?start ?step t" "ddel t = [1]" "wph (base t) = wph b"
    using reach_step [OF r2] by blast
  moreover have "\<not> wcrash (base t)" using add_watchers_harmless [OF calculation(1)] by simp
  ultimately show ?thesis using b(2) by (intro exI [of _ t]) (simp add: w_goal_def)
qed

end
