(* ===== verification/Registry.thy ===== *)
theory Registry
  imports WatchMap "HOL-Library.Sublist"
begin

text \<open>
  The tests that put load on a service registry, \<open>etcd/load_test/load_test.go\<close> and
  \<open>consul/load_test/load_test.go\<close>: entries that stay are put in and counted, then calls of a
  write load generator register and deregister further entries while calls of a read load
  generator list them, and at the end the registry is checked. The two suites differ in how
  they name entries and in what a reader asserts.
\<close>

section \<open>The registries\<close>

text \<open>
  The registry service is a parameter: a state seen through \<open>view\<close>, which maps the identifier
  of an entry to what is stored, with registration, deregistration (whether an entry was
  removed: etcd reports one key deleted, consul no error) and the number of entries of a service.
\<close>

record ('r, 'v) registry =
  view :: "'r \<Rightarrow> string \<rightharpoonup> 'v"
  enter :: "'r \<Rightarrow> string \<Rightarrow> 'v \<Rightarrow> 'r"
  leave :: "'r \<Rightarrow> string \<Rightarrow> 'r \<times> bool"
  count_of :: "'r \<Rightarrow> string \<Rightarrow> nat"

text \<open>What the tests rely on; \<open>member svc k v\<close> says that entry \<open>k\<close>, \<open>v\<close> is listed for service \<open>svc\<close>.\<close>

definition listed :: "(string \<Rightarrow> string \<Rightarrow> 'v \<Rightarrow> bool) \<Rightarrow> string \<Rightarrow> (string \<rightharpoonup> 'v) \<Rightarrow> string set" where
  "listed member svc m = {k. \<exists>v. m k = Some v \<and> member svc k v}"

definition registry_laws :: "('r, 'v) registry \<Rightarrow> (string \<Rightarrow> string \<Rightarrow> 'v \<Rightarrow> bool) \<Rightarrow> bool" where
  "registry_laws ops member \<longleftrightarrow>
     (\<forall>r. finite (dom (view ops r)))
   \<and> (\<forall>r k v. view ops (enter ops r k v) = (view ops r)(k \<mapsto> v))
   \<and> (\<forall>r k. view ops (fst (leave ops r k)) = (view ops r)(k := None)
        \<and> snd (leave ops r k) = (view ops r k \<noteq> None))
   \<and> (\<forall>r svc. count_of ops r svc = card (listed member svc (view ops r)))"

section \<open>The two suites\<close>

definition SVC2_NAME :: string where "SVC2_NAME = ''notmysvc''"

definition PORT_OFFSET :: int where "PORT_OFFSET = 10000"

text \<open>
  etcd stores an address under a path, and lists by prefix of the path. The entries that the
  calls register, \<open>replica_key\<close> and \<open>replica_addr\<close>, are those of the watch test.
\<close>

definition etcd_min_entry :: "string \<Rightarrow> nat \<Rightarrow> string \<times> string" where
  "etcd_min_entry svcname i = (svcname @ ''/min-svc-replica-'' @ Itoa (int i), ''127.0.0.1:XXXX'')"

definition etcd_call_entry :: "nat \<Rightarrow> string \<times> string" where
  "etcd_call_entry i = (replica_key i, replica_addr i)"

definition etcd_member :: "string \<Rightarrow> string \<Rightarrow> string \<Rightarrow> bool" where
  "etcd_member svcname key v = prefix svcname key"

text \<open>consul stores a record under an identifier, and lists by its name field.\<close>

record AgentServiceRegistration =
  Name :: string
  Port :: int
  Address :: string

definition consul_min_entry :: "string \<Rightarrow> nat \<Rightarrow> string \<times> AgentServiceRegistration" where
  "consul_min_entry svcname i =
     (svcname @ ''-min-svc-replica-'' @ Itoa (int i),
      \<lparr>Name = svcname, Port = int i, Address = ''127.0.0.1''\<rparr>)"

definition consul_call_entry :: "nat \<Rightarrow> string \<times> AgentServiceRegistration" where
  "consul_call_entry i =
     (''svc-replica-'' @ Itoa (int i + 2),
      \<lparr>Name = SVC_NAME, Port = PORT_OFFSET + (int i + 2), Address = ''127.0.0.1''\<rparr>)"

definition consul_member :: "string \<Rightarrow> string \<Rightarrow> AgentServiceRegistration \<Rightarrow> bool" where
  "consul_member svcname k v \<longleftrightarrow> Name v = svcname"

text \<open>What a reader asserts of the number of entries it got.\<close>

definition etcd_read_ok :: "int \<Rightarrow> nat \<Rightarrow> bool" where
  "etcd_read_ok minEntries n \<longleftrightarrow> n > 1 \<and> int n \<ge> minEntries"

definition consul_read_ok :: "int \<Rightarrow> nat \<Rightarrow> bool" where
  "consul_read_ok minEntries n \<longleftrightarrow> n > 1"

section \<open>Populating and checking\<close>

fun populate_loop :: "('r, 'v) registry \<Rightarrow> (nat \<Rightarrow> string \<times> 'v) \<Rightarrow> nat \<Rightarrow> nat \<Rightarrow> 'r \<Rightarrow> 'r" where
  "populate_loop ops entry i 0 r = r"
| "populate_loop ops entry i (Suc k) r =
     populate_loop ops entry (Suc i) k (enter ops r (fst (entry i)) (snd (entry i)))"

text \<open>The result is the registry and whether the count was as expected.\<close>

definition populateRegistry ::
  "('r, 'v) registry \<Rightarrow> (string \<Rightarrow> nat \<Rightarrow> string \<times> 'v) \<Rightarrow> string \<Rightarrow> int \<Rightarrow> 'r \<Rightarrow> bool \<times> 'r" where
  "populateRegistry ops min_entry svcname ninstances r =
     (let r' = populate_loop ops (min_entry svcname) 0 (nat ninstances) r
      in (int (count_of ops r' svcname) = ninstances, r'))"

definition checkRegistry :: "('r, 'v) registry \<Rightarrow> int \<Rightarrow> 'r \<Rightarrow> bool" where
  "checkRegistry ops minEntries r \<longleftrightarrow> minEntries \<le> int (count_of ops r SVC_NAME)"

text \<open>What the tests do before the load: \<open>None\<close> when a check fails and the test returns.\<close>

definition populate_both ::
  "('r, 'v) registry \<Rightarrow> (string \<Rightarrow> nat \<Rightarrow> string \<times> 'v) \<Rightarrow> int \<Rightarrow> int \<Rightarrow> 'r \<Rightarrow> 'r option" where
  "populate_both ops min_entry minEntries unrelatedEntries r =
     (case populateRegistry ops min_entry SVC_NAME minEntries r of
        (False, r1) \<Rightarrow> None
      | (True, r1) \<Rightarrow>
          (case populateRegistry ops min_entry SVC2_NAME unrelatedEntries r1 of
             (False, r2) \<Rightarrow> None
           | (True, r2) \<Rightarrow> Some r2))"

section \<open>The load\<close>

text \<open>
  The calls of the load generators run concurrently. A writing call registers its entry and
  then deregisters it; \<open>checks\<close> are the outcomes of the assertions so far. In
  \<open>TestRegisterOnly\<close> (\<open>dereg = False\<close>) calls register only, and nothing reads.
\<close>

datatype call_pc = NotYet | Entered | Left

record 'r load =
  reg :: 'r
  calls :: "nat \<Rightarrow> call_pc"
  checks :: "bool list"

definition rg_start :: "'r \<Rightarrow> 'r load \<Rightarrow> bool" where
  "rg_start r s \<longleftrightarrow> s = \<lparr>reg = r, calls = (\<lambda>_. NotYet), checks = []\<rparr>"

inductive rg_step ::
  "('r, 'v) registry \<Rightarrow> (nat \<Rightarrow> string \<times> 'v) \<Rightarrow> (nat \<Rightarrow> bool) \<Rightarrow> bool \<Rightarrow> nat \<Rightarrow> 'r load \<Rightarrow> 'r load \<Rightarrow> bool"
  for ops :: "('r, 'v) registry" and call_entry :: "nat \<Rightarrow> string \<times> 'v" and read_ok :: "nat \<Rightarrow> bool"
    and dereg :: bool and n :: nat where
  rg_enter: "i < n \<Longrightarrow> calls s i = NotYet \<Longrightarrow>
     rg_step ops call_entry read_ok dereg n s
       (s\<lparr>reg := enter ops (reg s) (fst (call_entry i)) (snd (call_entry i)), calls := (calls s)(i := Entered)\<rparr>)"
| rg_leave: "dereg \<Longrightarrow> i < n \<Longrightarrow> calls s i = Entered \<Longrightarrow> leave ops (reg s) (fst (call_entry i)) = (r', ok) \<Longrightarrow>
     rg_step ops call_entry read_ok dereg n s
       (s\<lparr>reg := r', calls := (calls s)(i := Left), checks := checks s @ [ok]\<rparr>)"
| rg_read: "dereg \<Longrightarrow>
     rg_step ops call_entry read_ok dereg n s
       (s\<lparr>checks := checks s @ [read_ok (count_of ops (reg s) SVC_NAME)]\<rparr>)"

section \<open>What any suite promises\<close>

text \<open>
  The contract of a suite's naming scheme: entries are told apart by their identifiers, and
  they are listed for the service they are meant for.
\<close>

locale registry_suite =
  fixes min_entry :: "string \<Rightarrow> nat \<Rightarrow> string \<times> 'v"
    and call_entry :: "nat \<Rightarrow> string \<times> 'v"
    and member :: "string \<Rightarrow> string \<Rightarrow> 'v \<Rightarrow> bool"
  assumes call_inj: "fst (call_entry i) = fst (call_entry j) \<Longrightarrow> i = j"
    and min_inj: "fst (min_entry svc i) = fst (min_entry svc j) \<Longrightarrow> i = j"
    and min_not_call: "svc \<in> {SVC_NAME, SVC2_NAME} \<Longrightarrow> fst (min_entry svc i) \<noteq> fst (call_entry j)"
    and min_not_min2: "fst (min_entry SVC_NAME i) \<noteq> fst (min_entry SVC2_NAME j)"
    and call_listed: "member SVC_NAME (fst (call_entry i)) (snd (call_entry i))"
    and min_listed: "member svc (fst (min_entry svc i)) (snd (min_entry svc i))"
begin

lemma populate_loop_other:
  assumes "registry_laws ops member" and "\<And>j. i \<le> j \<Longrightarrow> key \<noteq> fst (entry j)"
  shows "view ops (populate_loop ops entry i k r) key = view ops r key"
  using assms(2)
proof (induction k arbitrary: i r)
  case (Suc k)
  have "view ops (enter ops r (fst (entry i)) (snd (entry i))) key = view ops r key"
    using assms(1) Suc.prems [of i] by (simp add: registry_laws_def)
  with Suc.IH [of "Suc i"] Suc.prems show ?case by simp
qed simp

lemma populate_loop_enters:
  assumes "registry_laws ops member" and "i \<le> j" and "j < i + k"
  shows "view ops (populate_loop ops (min_entry svc) i k r) (fst (min_entry svc j)) = Some (snd (min_entry svc j))"
  using assms(2,3)
proof (induction k arbitrary: i r)
  case (Suc k)
  show ?case
  proof (cases "j = i")
    case True
    have "fst (min_entry svc i) \<noteq> fst (min_entry svc j')" if "Suc i \<le> j'" for j'
      using min_inj [of svc i j'] that by auto
    then show ?thesis
      using True populate_loop_other [OF assms(1), of "Suc i" "fst (min_entry svc i)" "min_entry svc" k] assms(1)
      by (simp add: registry_laws_def)
  next
    case False
    with Suc show ?thesis by simp
  qed
qed simp

definition has_min :: "('r, 'v) registry \<Rightarrow> string \<Rightarrow> int \<Rightarrow> 'r \<Rightarrow> bool" where
  "has_min ops svc m r \<longleftrightarrow> (\<forall>j<nat m. view ops r (fst (min_entry svc j)) = Some (snd (min_entry svc j)))"

lemma populate_has_min:
  assumes "registry_laws ops member" and "populateRegistry ops min_entry svc m r = (ok, r')"
  shows "has_min ops svc m r'"
    and "\<And>key. (\<And>j. key \<noteq> fst (min_entry svc j)) \<Longrightarrow> view ops r' key = view ops r key"
proof -
  have r': "r' = populate_loop ops (min_entry svc) 0 (nat m) r"
    using assms(2) by (simp add: populateRegistry_def Let_def)
  show "has_min ops svc m r'"
    using populate_loop_enters [OF assms(1)] by (simp add: r' has_min_def)
  show "\<And>key. (\<And>j. key \<noteq> fst (min_entry svc j)) \<Longrightarrow> view ops r' key = view ops r key"
    using populate_loop_other [OF assms(1)] by (simp add: r')
qed

lemma populate_both_has_min:
  assumes "registry_laws ops member" and "populate_both ops min_entry m u r = Some r2"
  shows "has_min ops SVC_NAME m r2"
proof -
  obtain r1 where 1: "populateRegistry ops min_entry SVC_NAME m r = (True, r1)"
    and 2: "populateRegistry ops min_entry SVC2_NAME u r1 = (True, r2)"
    using assms(2) by (auto simp: populate_both_def split: prod.splits bool.splits)
  from populate_has_min(1) [OF assms(1) 1] populate_has_min(2) [OF assms(1) 2] show ?thesis
    by (simp add: has_min_def min_not_min2)
qed

text \<open>Entries that are there are counted.\<close>

lemma count_at_least:
  assumes "registry_laws ops member" and "has_min ops SVC_NAME m r"
    and "finite X" and "X \<subseteq> {i. view ops r (fst (call_entry i)) = Some (snd (call_entry i))}"
  shows "nat m + card X \<le> count_of ops r SVC_NAME"
proof -
  let ?f = "\<lambda>j. fst (min_entry SVC_NAME j)" and ?g = "\<lambda>i. fst (call_entry i)"
  let ?L = "listed member SVC_NAME (view ops r)"
  have "finite (dom (view ops r))" using assms(1) by (simp add: registry_laws_def)
  moreover have "?L \<subseteq> dom (view ops r)" by (auto simp: listed_def)
  ultimately have fin: "finite ?L" by (rule rev_finite_subset)
  have "?f ` {..<nat m} \<union> ?g ` X \<subseteq> ?L"
    using assms(2,4) min_listed call_listed by (auto simp: listed_def has_min_def subset_iff)
  then have "card (?f ` {..<nat m} \<union> ?g ` X) \<le> card ?L" using fin by (rule card_mono [rotated])
  moreover have "?f ` {..<nat m} \<inter> ?g ` X = {}" using min_not_call by auto
  moreover have "inj_on ?f {..<nat m}" and "inj_on ?g X"
    by (auto intro!: inj_onI dest: min_inj call_inj)
  ultimately show ?thesis
    using assms(1,3) by (simp add: card_Un_disjoint card_image registry_laws_def)
qed

text \<open>In a run of the load every call's entry is as the call left it, and others do not change.\<close>

definition load_inv :: "('r, 'v) registry \<Rightarrow> (nat \<Rightarrow> nat) \<Rightarrow> nat \<Rightarrow> 'r \<Rightarrow> 'r load \<Rightarrow> bool" where
  "load_inv ops h n r s \<longleftrightarrow>
     (\<forall>i. view ops (reg s) (fst (call_entry (h i))) =
        (case calls s i of
           NotYet \<Rightarrow> view ops r (fst (call_entry (h i)))
         | Entered \<Rightarrow> Some (snd (call_entry (h i)))
         | Left \<Rightarrow> None))
   \<and> (\<forall>k. (\<forall>i<n. k \<noteq> fst (call_entry (h i))) \<longrightarrow> view ops (reg s) k = view ops r k)"

lemma load_invI:
  assumes "registry_laws ops member" and "inj h"
    and "reach (rg_start r) (rg_step ops (\<lambda>i. call_entry (h i)) read_ok dereg n) s"
  shows "load_inv ops h n r s"
  using assms(3)
proof (induction rule: reach.induct)
  case (reach_start s)
  then show ?case by (auto simp: rg_start_def load_inv_def)
next
  case (reach_step s t)
  have eq: "fst (call_entry (h i)) = fst (call_entry (h j)) \<longleftrightarrow> i = j" for i j
    using assms(2) call_inj by (metis injD)
  have e: "view ops (enter ops r k v) = (view ops r)(k \<mapsto> v)"
    and l: "view ops (fst (leave ops r k)) = (view ops r)(k := None)" for r k v
    using assms(1) by (simp_all add: registry_laws_def)
  from reach_step(2) show ?case
  proof cases
    case (rg_leave i r' ok)
    then have "view ops r' = (view ops (reg s))(fst (call_entry (h i)) := None)"
      using l [of "reg s" "fst (call_entry (h i))"] by simp
    with rg_leave reach_step.IH show ?thesis by (simp add: load_inv_def eq)
  qed (use reach_step.IH in \<open>simp_all add: load_inv_def e eq\<close>)
qed

lemma load_keeps_min:
  assumes "load_inv ops h n r s" and "has_min ops SVC_NAME m r"
  shows "has_min ops SVC_NAME m (reg s)"
  using assms min_not_call by (simp add: load_inv_def has_min_def)

lemma load_checks:
  assumes laws: "registry_laws ops member" and "inj h"
    and "reach (rg_start r) (rg_step ops (\<lambda>i. call_entry (h i)) read_ok dereg n) s"
    and m: "has_min ops SVC_NAME m r" and "\<And>c. nat m \<le> c \<Longrightarrow> read_ok c"
  shows "list_all id (checks s)"
  using assms(3)
proof (induction rule: reach.induct)
  case (reach_start s)
  then show ?case by (simp add: rg_start_def)
next
  case (reach_step s t)
  note inv = load_invI [OF laws assms(2) reach_step(1)]
  from reach_step(2) show ?case
  proof cases
    case (rg_leave i r' ok)
    have "view ops (reg s) (fst (call_entry (h i))) \<noteq> None" using inv rg_leave by (simp add: load_inv_def)
    moreover have "snd (leave ops (reg s) k) = (view ops (reg s) k \<noteq> None)" for k
      using laws by (simp add: registry_laws_def)
    ultimately have "ok" using rg_leave by (metis snd_conv)
    with rg_leave reach_step.IH show ?thesis by simp
  next
    case rg_read
    have "nat m \<le> count_of ops (reg s) SVC_NAME"
      using count_at_least [OF laws load_keeps_min [OF inv m], of "{}"] by simp
    with rg_read reach_step.IH assms(5) show ?thesis by simp
  qed (use reach_step.IH in simp)
qed

lemma load_final:
  assumes "registry_laws ops member" and "inj h"
    and "reach (rg_start r) (rg_step ops (\<lambda>i. call_entry (h i)) read_ok dereg n) s"
    and "has_min ops SVC_NAME m r"
  shows "checkRegistry ops m (reg s)"
  using count_at_least [OF assms(1) load_keeps_min [OF load_invI [OF assms(1-3)] assms(4)], of "{}"]
  by (simp add: checkRegistry_def)

lemma spoiled:
  assumes laws: "registry_laws ops member" and "inj h"
    and "reach (rg_start r) (rg_step ops (\<lambda>i. call_entry (h i)) read_ok dereg n) s"
    and "calls s i = Entered"
  shows "\<not> fst (populateRegistry ops min_entry SVC_NAME m (reg s))"
proof -
  obtain ok r' where p: "populateRegistry ops min_entry SVC_NAME m (reg s) = (ok, r')" by fastforce
  have "view ops (reg s) (fst (call_entry (h i))) = Some (snd (call_entry (h i)))"
    using load_invI [OF assms(1-3)] assms(4) by (simp add: load_inv_def)
  then have "view ops r' (fst (call_entry (h i))) = Some (snd (call_entry (h i)))"
    using populate_has_min(2) [OF laws p, of "fst (call_entry (h i))"] min_not_call [of SVC_NAME] by (metis insertI1)
  then have "nat m + 1 \<le> count_of ops r' SVC_NAME"
    using count_at_least [OF laws populate_has_min(1) [OF laws p], of "{h i}"] by simp
  moreover have "ok \<longleftrightarrow> int (count_of ops r' SVC_NAME) = m" using p by (auto simp: populateRegistry_def Let_def)
  ultimately show ?thesis using p by simp
qed

end

lemma registry_count_zero_unrelated:
  assumes "populate_both ops min_entry m 0 r = Some r2"
  shows "int (count_of ops r2 SVC_NAME) = m"
  using assms by (auto simp: populate_both_def populateRegistry_def Let_def split: prod.splits bool.splits)

section \<open>The two suites keep the contract\<close>

interpretation etcd: registry_suite etcd_min_entry etcd_call_entry etcd_member
proof
  show "fst (etcd_min_entry svc i) \<noteq> fst (etcd_call_entry j)" if "svc \<in> {SVC_NAME, SVC2_NAME}" for svc i j
    using that by (auto simp: etcd_min_entry_def etcd_call_entry_def replica_key_def SVC_NAME_def SVC2_NAME_def)
qed (auto simp: etcd_min_entry_def etcd_call_entry_def etcd_member_def Itoa_inj SVC_NAME_def SVC2_NAME_def replica_key_def)

interpretation consul: registry_suite consul_min_entry consul_call_entry consul_member
proof
  show "fst (consul_min_entry svc i) \<noteq> fst (consul_call_entry j)" if "svc \<in> {SVC_NAME, SVC2_NAME}" for svc i j
    using that by (auto simp: consul_min_entry_def consul_call_entry_def SVC_NAME_def SVC2_NAME_def)
qed (auto simp: consul_min_entry_def consul_call_entry_def consul_member_def Itoa_inj SVC_NAME_def SVC2_NAME_def)

section \<open>A registry\<close>

text \<open>A list of entries, newest first, shows that the hypotheses on the service can hold.\<close>

definition list_registry :: "(string \<Rightarrow> string \<Rightarrow> 'v \<Rightarrow> bool) \<Rightarrow> ((string \<times> 'v) list, 'v) registry" where
  "list_registry member =
     \<lparr>view = map_of, enter = (\<lambda>r k v. (k, v) # r), leave = (\<lambda>r k. (filter (\<lambda>p. fst p \<noteq> k) r, map_of r k \<noteq> None)),
      count_of = (\<lambda>r svc. card (listed member svc (map_of r)))\<rparr>"

lemma map_of_without: "map_of (filter (\<lambda>p. fst p \<noteq> k) r) = (map_of r)(k := None)"
  by (induction r) (auto simp: fun_eq_iff)

lemma list_registry_laws: "registry_laws (list_registry member) member"
  by (simp add: registry_laws_def list_registry_def map_of_without finite_dom_map_of)

lemma list_registry_simps [simp]:
  "view (list_registry member) = map_of"
  "enter (list_registry member) r k v = (k, v) # r"
  "count_of (list_registry member) r svc = card (listed member svc (map_of r))"
  by (simp_all add: list_registry_def)

lemma listed_Nil [simp]: "listed member svc Map.empty = {}"
  by (simp add: listed_def)

lemma listed_upd:
  "listed member svc (m(k \<mapsto> v)) = (if member svc k v then insert k (listed member svc m) else listed member svc m - {k})"
  by (auto simp: listed_def)

section \<open>Properties\<close>

text \<open>
  C20. etcd: whatever the interleaving of writing and reading calls, once the registry has
  been populated with at least two entries no assertion of the test fails: every delete
  removes its entry, every read lists enough entries, and so does the final check. Entries
  that no call has named are as before, and those of finished calls are gone. With fewer
  than two entries, and no others of the service, a read fails its assertion.
\<close>

theorem etcd_load_keeps_registry:
  assumes "registry_laws ops etcd_member"
    and "populate_both ops etcd_min_entry minEntries unrelated r = Some r2"
    and "reach (rg_start r2) (rg_step ops etcd_call_entry (etcd_read_ok minEntries) True n) s"
  shows "(2 \<le> minEntries \<longrightarrow> list_all id (checks s))
    \<and> checkRegistry ops minEntries (reg s)
    \<and> (\<forall>i<n. calls s i = Left \<longrightarrow> view ops (reg s) (fst (etcd_call_entry i)) = None)
    \<and> (\<forall>k. (\<forall>i<n. k \<noteq> fst (etcd_call_entry i)) \<longrightarrow> view ops (reg s) k = view ops r2 k)
    \<and> (minEntries < 2 \<and> unrelated = 0 \<longrightarrow> \<not> etcd_read_ok minEntries (count_of ops r2 SVC_NAME))"
proof (intro conjI impI)
  note m = etcd.populate_both_has_min [OF assms(1,2)]
  note inv = etcd.load_invI [OF assms(1) inj_on_id2, of r2, OF assms(3)]
  show "2 \<le> minEntries \<Longrightarrow> list_all id (checks s)"
    by (rule etcd.load_checks [OF assms(1) inj_on_id2 assms(3) m]) (simp add: etcd_read_ok_def nat_le_iff)
  show "checkRegistry ops minEntries (reg s)"
    by (rule etcd.load_final [OF assms(1) inj_on_id2 assms(3) m])
  show "\<forall>i<n. calls s i = Left \<longrightarrow> view ops (reg s) (fst (etcd_call_entry i)) = None"
    and "\<forall>k. (\<forall>i<n. k \<noteq> fst (etcd_call_entry i)) \<longrightarrow> view ops (reg s) k = view ops r2 k"
    using inv by (simp_all add: etcd.load_inv_def)
qed (use registry_count_zero_unrelated [of ops etcd_min_entry minEntries r r2] assms(2) in \<open>auto simp: etcd_read_ok_def\<close>)

lemma demo_populated:
  "\<exists>r2. populate_both (list_registry etcd_member) etcd_min_entry 2 0 [] = Some r2"
  "\<exists>r2. populate_both (list_registry consul_member) consul_min_entry 2 0 [] = Some r2"
  by (simp_all add: populate_both_def populateRegistry_def Let_def numeral_2_eq_2 listed_upd etcd_member_def consul_member_def
      etcd_min_entry_def consul_min_entry_def SVC_NAME_def SVC2_NAME_def Itoa_inj)

lemma demo_read: "\<exists>s. reach (rg_start r) (rg_step ops e ok True n) s \<and> checks s = [ok (count_of ops r SVC_NAME)]"
proof -
  let ?s = "\<lparr>reg = r, calls = (\<lambda>_. NotYet), checks = []\<rparr>"
  have "reach (rg_start r) (rg_step ops e ok True n) ?s" by (rule reach_start) (simp add: rg_start_def)
  from reach_step [OF this rg_read] show ?thesis by force
qed

theorem etcd_load_keeps_registry_witness:
  "\<exists>(s :: (string \<times> string) list load). checks s = [True] \<and> checkRegistry (list_registry etcd_member) 2 (reg s)"
proof -
  obtain r2 where r2: "populate_both (list_registry etcd_member) etcd_min_entry 2 0 [] = Some r2"
    using demo_populated(1) by blast
  obtain s where s: "reach (rg_start r2) (rg_step (list_registry etcd_member) etcd_call_entry (etcd_read_ok 2) True 3) s"
    "length (checks s) = 1"
    using demo_read by (metis One_nat_def length_Cons list.size(3))
  have "list_all id (checks s)" and "checkRegistry (list_registry etcd_member) 2 (reg s)"
    using etcd_load_keeps_registry [OF list_registry_laws r2 s(1)] by simp_all
  with s(2) show ?thesis by (intro exI [of _ s]) (auto simp: length_Suc_conv)
qed

text \<open>
  consul: the same, except that a reader asserts only that there is more than one entry.
\<close>

theorem consul_load_keeps_registry:
  assumes "registry_laws ops consul_member"
    and "populate_both ops consul_min_entry minEntries unrelated r = Some r2"
    and "reach (rg_start r2) (rg_step ops consul_call_entry (consul_read_ok minEntries) True n) s"
  shows "(2 \<le> minEntries \<longrightarrow> list_all id (checks s))
    \<and> checkRegistry ops minEntries (reg s)
    \<and> (\<forall>i<n. calls s i = Left \<longrightarrow> view ops (reg s) (fst (consul_call_entry i)) = None)
    \<and> (\<forall>k. (\<forall>i<n. k \<noteq> fst (consul_call_entry i)) \<longrightarrow> view ops (reg s) k = view ops r2 k)
    \<and> (minEntries < 2 \<and> unrelated = 0 \<longrightarrow> \<not> consul_read_ok minEntries (count_of ops r2 SVC_NAME))"
proof (intro conjI impI)
  note m = consul.populate_both_has_min [OF assms(1,2)]
  note inv = consul.load_invI [OF assms(1) inj_on_id2, of r2, OF assms(3)]
  show "2 \<le> minEntries \<Longrightarrow> list_all id (checks s)"
    by (rule consul.load_checks [OF assms(1) inj_on_id2 assms(3) m]) (simp add: consul_read_ok_def)
  show "checkRegistry ops minEntries (reg s)"
    by (rule consul.load_final [OF assms(1) inj_on_id2 assms(3) m])
  show "\<forall>i<n. calls s i = Left \<longrightarrow> view ops (reg s) (fst (consul_call_entry i)) = None"
    and "\<forall>k. (\<forall>i<n. k \<noteq> fst (consul_call_entry i)) \<longrightarrow> view ops (reg s) k = view ops r2 k"
    using inv by (simp_all add: consul.load_inv_def)
qed (use registry_count_zero_unrelated [of ops consul_min_entry minEntries r r2] assms(2) in \<open>auto simp: consul_read_ok_def\<close>)

theorem consul_load_keeps_registry_witness:
  "\<exists>(s :: (string \<times> AgentServiceRegistration) list load).
     checks s = [True] \<and> checkRegistry (list_registry consul_member) 2 (reg s)"
proof -
  obtain r2 where r2: "populate_both (list_registry consul_member) consul_min_entry 2 0 [] = Some r2"
    using demo_populated(2) by blast
  obtain s where s: "reach (rg_start r2) (rg_step (list_registry consul_member) consul_call_entry (consul_read_ok 2) True 3) s"
    "length (checks s) = 1"
    using demo_read by (metis One_nat_def length_Cons list.size(3))
  have "list_all id (checks s)" and "checkRegistry (list_registry consul_member) 2 (reg s)"
    using consul_load_keeps_registry [OF list_registry_laws r2 s(1)] by simp_all
  with s(2) show ?thesis by (intro exI [of _ s]) (auto simp: length_Suc_conv)
qed

text \<open>
  \<open>TestRegisterOnly\<close> leaves its entries behind: once one of its calls has registered, every
  later attempt to populate the service, with any number of entries, fails its check that
  the count is exact, on etcd as on consul.
\<close>

theorem register_only_spoils_registry:
  assumes "registry_laws ops etcd_member" and "registry_laws ops' consul_member"
    and "reach (rg_start r) (rg_step ops (\<lambda>i. etcd_call_entry (Suc i)) ok False n) s" and "calls s i = Entered"
    and "reach (rg_start r') (rg_step ops' (\<lambda>i. consul_call_entry (Suc i)) ok False n) s'" and "calls s' i' = Entered"
  shows "populate_both ops etcd_min_entry minEntries unrelated (reg s) = None
    \<and> populate_both ops' consul_min_entry minEntries unrelated (reg s') = None"
  using etcd.spoiled [OF assms(1) _ assms(3,4), of minEntries] consul.spoiled [OF assms(2) _ assms(5,6), of minEntries]
  by (auto simp: populate_both_def split: prod.splits bool.splits)

lemma demo_entered:
  assumes "0 < n"
  shows "\<exists>s. reach (rg_start r) (rg_step ops e ok dereg n) s \<and> calls s 0 = Entered"
proof -
  let ?s = "\<lparr>reg = r, calls = (\<lambda>_. NotYet), checks = []\<rparr>"
  have "reach (rg_start r) (rg_step ops e ok dereg n) ?s" by (rule reach_start) (simp add: rg_start_def)
  from reach_step [OF this rg_enter [OF assms]] show ?thesis by force
qed

theorem register_only_spoils_registry_witness:
  "\<exists>(s :: (string \<times> string) list load) (s' :: (string \<times> AgentServiceRegistration) list load).
     populate_both (list_registry etcd_member) etcd_min_entry 2 0 (reg s) = None
     \<and> populate_both (list_registry consul_member) consul_min_entry 2 0 (reg s') = None"
proof -
  obtain s where s: "reach (rg_start []) (rg_step (list_registry etcd_member) (\<lambda>i. etcd_call_entry (Suc i)) (\<lambda>_. True) False 1) s"
    "calls s 0 = Entered" using demo_entered [of 1] by (metis zero_less_one)
  obtain s' where s': "reach (rg_start []) (rg_step (list_registry consul_member) (\<lambda>i. consul_call_entry (Suc i)) (\<lambda>_. True) False 1) s'"
    "calls s' 0 = Entered" using demo_entered [of 1] by (metis zero_less_one)
  from register_only_spoils_registry [OF list_registry_laws list_registry_laws s s', of 2 0] show ?thesis by blast
qed

end
