(* ===== verification/GoJson.thy ===== *)
theory GoJson
  imports GoFmt
begin

text \<open>
  What the lambdas and their test use of Go's \<open>encoding/json\<close>: \<open>Marshal\<close> to text, and the parser
  that \<open>Unmarshal\<close> runs over its input. A string is a list of bytes; what is not UTF-8 in
  it is replaced by U+FFFD on the way. The escapes are those of Go 1.21.
\<close>

section \<open>UTF-8\<close>

definition in_range :: "nat \<Rightarrow> nat \<Rightarrow> char \<Rightarrow> bool" where
  "in_range lo hi c \<longleftrightarrow> lo \<le> of_char c \<and> of_char c \<le> hi"

text \<open>\<open>n\<close> continuation bytes, the first of them between \<open>lo\<close> and \<open>hi\<close>.\<close>

definition conts :: "nat \<Rightarrow> nat \<Rightarrow> nat \<Rightarrow> string \<Rightarrow> bool" where
  "conts lo hi n s \<longleftrightarrow> n \<le> length s \<and> in_range lo hi (hd s) \<and> list_all (in_range 0x80 0xBF) (tl (take n s))"

text \<open>The number of bytes of the first rune (\<open>utf8.DecodeRune\<close>), 0 when they are not valid.\<close>

definition rune_len :: "string \<Rightarrow> nat" where
  "rune_len s =
     (case s of
        [] \<Rightarrow> 0
      | c # cs \<Rightarrow>
          let k = of_char c :: nat
          in if k < 0x80 then 1
             else if 0xC2 \<le> k \<and> k \<le> 0xDF \<and> conts 0x80 0xBF 1 cs then 2
             else if 0xE0 \<le> k \<and> k \<le> 0xEF \<and>
               conts (if k = 0xE0 then 0xA0 else 0x80) (if k = 0xED then 0x9F else 0xBF) 2 cs then 3
             else if 0xF0 \<le> k \<and> k \<le> 0xF4 \<and>
               conts (if k = 0xF0 then 0x90 else 0x80) (if k = 0xF4 then 0x8F else 0xBF) 3 cs then 4
             else 0)"

definition utf8 :: "nat \<Rightarrow> string" where
  "utf8 k =
     (if k < 0x80 then [char_of k]
      else if k < 0x800 then [char_of (0xC0 + k div 64), char_of (0x80 + k mod 64)]
      else if k < 0x10000 then [char_of (0xE0 + k div 4096), char_of (0x80 + k div 64 mod 64), char_of (0x80 + k mod 64)]
      else [char_of (0xF0 + k div 262144), char_of (0x80 + k div 4096 mod 64), char_of (0x80 + k div 64 mod 64),
            char_of (0x80 + k mod 64)])"

definition RuneError :: string where
  "RuneError = [CHR 0xEF, CHR 0xBF, CHR 0xBD]"

lemma rune_len_le: "rune_len s \<le> length s"
  by (auto simp: rune_len_def conts_def Let_def split: list.splits)

text \<open>A string with every invalid byte replaced.\<close>

function clean :: "string \<Rightarrow> string" where
  "clean [] = []"
| "clean (c # cs) =
     (let n = rune_len (c # cs)
      in if n = 0 then RuneError @ clean cs else take n (c # cs) @ clean (drop (n - 1) cs))"
  by pat_completeness auto
termination by (relation "measure length") auto

lemma rune_len_local:
  assumes "rune_len s = n" and "0 < n"
  shows "rune_len (take n s @ t) = n"
proof (cases s)
  case (Cons c cs)
  have loc: "conts lo hi m cs \<Longrightarrow> conts lo hi m (take m cs @ t)" if "0 < m" for lo hi m t
    using that by (cases cs) (auto simp: conts_def take_Cons' min_def)
  have "n \<le> length s" using rune_len_le [of s] assms(1) by simp
  with assms Cons show ?thesis
    using loc [of 1] loc [of 2] loc [of 3]
    by (auto simp: rune_len_def Let_def numeral_eq_Suc split: if_splits)
qed (use assms in \<open>simp add: rune_len_def\<close>)

lemma clean_ascii: "list_all (\<lambda>c. of_char c < (0x80 :: nat)) s \<Longrightarrow> clean s = s"
  by (induction s rule: clean.induct) (auto simp: rune_len_def Let_def)

declare clean.simps(2) [simp del]

section \<open>Strings\<close>

definition bsl :: char where "bsl = CHR 0x5C"
definition dquote :: char where "dquote = CHR 0x22"

definition hex_digit :: "nat \<Rightarrow> char" where
  "hex_digit d = (if d < 10 then char_of (48 + d) else char_of (87 + d))"

definition hex_val :: "char \<Rightarrow> nat option" where
  "hex_val c =
     (let k = of_char c
      in if 48 \<le> k \<and> k \<le> 57 then Some (k - 48)
         else if 97 \<le> k \<and> k \<le> 102 then Some (k - 87)
         else if 65 \<le> k \<and> k \<le> 70 then Some (k - 55)
         else None)"

text \<open>A rune as it is written: quotes, backslashes, control characters, what HTML reads, and two line separators are escaped.\<close>

definition enc_rune :: "string \<Rightarrow> string" where
  "enc_rune r =
     (if r = [dquote] \<or> r = [bsl] then bsl # r
      else if r = [CHR 0x0A] then [bsl, CHR ''n'']
      else if r = [CHR 0x0D] then [bsl, CHR ''r'']
      else if r = [CHR 0x09] then [bsl, CHR ''t'']
      else if length r = 1 \<and> (of_char (hd r) < (32 :: nat) \<or> hd r \<in> set ''<>&'') then
        bsl # ''u00'' @ [hex_digit (of_char (hd r) div 16), hex_digit (of_char (hd r) mod 16)]
      else if r = [CHR 0xE2, CHR 0x80, CHR 0xA8] then bsl # ''u2028''
      else if r = [CHR 0xE2, CHR 0x80, CHR 0xA9] then bsl # ''u2029''
      else r)"

function enc_body :: "string \<Rightarrow> string" where
  "enc_body [] = []"
| "enc_body (c # cs) =
     (let n = rune_len (c # cs)
      in if n = 0 then bsl # ''ufffd'' @ enc_body cs
         else enc_rune (take n (c # cs)) @ enc_body (drop (n - 1) cs))"
  by pat_completeness auto
termination by (relation "measure length") auto

definition enc_string :: "string \<Rightarrow> string" where
  "enc_string s = dquote # enc_body s @ [dquote]"

text \<open>Four hexadecimal digits after a \<open>u\<close>.\<close>

definition getu4 :: "string \<Rightarrow> nat option" where
  "getu4 s =
     (case map hex_val (take 4 s) of
        [Some a, Some b, Some c, Some d] \<Rightarrow> Some (4096 * a + 256 * b + 16 * c + d)
      | _ \<Rightarrow> None)"

text \<open>
  What follows a backslash, and the rest. Two escapes may stand for one rune; half of such a
  pair alone is U+FFFD.
\<close>

definition low_surrogate :: "string \<Rightarrow> nat option" where
  "low_surrogate s =
     (if take 2 s = [bsl, CHR ''u'']
      then (case getu4 (drop 2 s) of
              None \<Rightarrow> None
            | Some k \<Rightarrow> if 0xDC00 \<le> k \<and> k \<le> 0xDFFF then Some k else None)
      else None)"

definition dec_rune :: "nat \<Rightarrow> string \<Rightarrow> string \<times> string" where
  "dec_rune k s =
     (if 0xD800 \<le> k \<and> k \<le> 0xDFFF
      then (case if k < 0xDC00 then low_surrogate s else None of
              None \<Rightarrow> (RuneError, s)
            | Some k' \<Rightarrow> (utf8 (0x10000 + 1024 * (k - 0xD800) + (k' - 0xDC00)), drop 6 s))
      else (utf8 k, s))"

definition dec_esc :: "string \<Rightarrow> (string \<times> string) option" where
  "dec_esc s =
     (case s of
        [] \<Rightarrow> None
      | c # cs \<Rightarrow>
          if c \<in> {dquote, bsl, CHR ''/''} then Some ([c], cs)
          else if c = CHR ''b'' then Some ([CHR 0x08], cs)
          else if c = CHR ''f'' then Some ([CHR 0x0C], cs)
          else if c = CHR ''n'' then Some ([CHR 0x0A], cs)
          else if c = CHR ''r'' then Some ([CHR 0x0D], cs)
          else if c = CHR ''t'' then Some ([CHR 0x09], cs)
          else if c = CHR ''u'' then map_option (\<lambda>k. dec_rune k (drop 4 cs)) (getu4 cs)
          else None)"

lemma dec_esc_shorter: "dec_esc s = Some (r, t) \<Longrightarrow> length t < length s"
  by (auto simp: dec_esc_def dec_rune_def split: list.splits if_splits option.splits)

text \<open>A string after its opening quote: its value, and what follows the closing quote.\<close>

function dec_body :: "string \<Rightarrow> (string \<times> string) option" where
  "dec_body s =
     (case s of
        [] \<Rightarrow> None
      | c # cs \<Rightarrow>
          if c = dquote then Some ([], cs)
          else if c = bsl then
            (case dec_esc cs of
               None \<Rightarrow> None
             | Some (r, t) \<Rightarrow> map_option (\<lambda>(v, u). (r @ v, u)) (dec_body t))
          else if of_char c < (32 :: nat) then None
          else
            let n = rune_len s; r = (if n = 0 then RuneError else take n s)
            in map_option (\<lambda>(v, u). (r @ v, u)) (dec_body (drop (max 1 n) s)))"
  by pat_completeness auto
termination by (relation "measure length") (auto dest: dec_esc_shorter)

declare dec_body.simps [simp del]

lemma dec_body_shorter: "dec_body s = Some (v, t) \<Longrightarrow> length t < length s"
proof (induction s arbitrary: v rule: dec_body.induct)
  case (1 s)
  show ?case
  proof (cases s)
    case (Cons c cs)
    with 1 show ?thesis
      by (fastforce simp: dec_body.simps [of "c # cs"] Let_def dest: dec_esc_shorter split: if_splits option.splits)
  qed (use 1 in \<open>simp add: dec_body.simps\<close>)
qed

text \<open>Reading back a rune.\<close>

lemma hex_val_digit: "d < 16 \<Longrightarrow> hex_val (hex_digit d) = Some d"
  by (auto simp: hex_val_def hex_digit_def Let_def)

lemma dec_body_quote [simp]: "dec_body (dquote # t) = Some ([], t)"
  by (simp add: dec_body.simps)

lemma dec_body_escape:
  "dec_esc (e @ s) = Some (r, s) \<Longrightarrow> dec_body (bsl # e @ s) = map_option (\<lambda>(v, u). (r @ v, u)) (dec_body s)"
  by (subst dec_body.simps) (simp add: bsl_def dquote_def)

lemma getu4_u00:
  assumes "k < 0x80"
  shows "getu4 (''00'' @ [hex_digit (k div 16), hex_digit (k mod 16)] @ s) = Some k"
proof -
  have "k div 16 < 16" using assms by auto
  moreover have "hex_val CHR ''0'' = Some 0" by (simp add: hex_val_def)
  ultimately show ?thesis
    by (simp add: getu4_def hex_val_digit)
qed

lemma dec_esc_u: "dec_esc (CHR ''u'' # s) = map_option (\<lambda>k. dec_rune k (drop 4 s)) (getu4 s)"
  by (simp add: dec_esc_def dquote_def bsl_def)

lemma dec_esc_u00:
  assumes "k < 0x80"
  shows "dec_esc (''u00'' @ [hex_digit (k div 16), hex_digit (k mod 16)] @ s) = Some ([char_of k], s)"
  using getu4_u00 [OF assms, of s] assms
  by (simp add: dec_esc_u dec_rune_def utf8_def)

abbreviation prefixed :: "string \<Rightarrow> (string \<times> string) option \<Rightarrow> (string \<times> string) option" where
  "prefixed r \<equiv> map_option (\<lambda>(v, u). (r @ v, u))"

lemma dec_body_rune:
  assumes "rune_len s = n" and "0 < n" and "hd s \<notin> {dquote, bsl}" and "32 \<le> (of_char (hd s) :: nat)"
  shows "dec_body (take n s @ t) = prefixed (take n s) (dec_body t)"
proof -
  have n: "rune_len (take n s @ t) = n" using rune_len_local assms(1,2) by blast
  obtain c cs where s: "s = c # cs" using assms(1,2) by (cases s) (auto simp: rune_len_def)
  have le: "n \<le> length s" using rune_len_le [of s] assms(1) by simp
  obtain m where m: "n = Suc m" using assms(2) by (cases n) auto
  show ?thesis
    using n assms le by (subst dec_body.simps) (simp add: s m Let_def)
qed

lemma dec_esc_line_separator:
  "dec_esc (''u2028'' @ s) = Some ([CHR 0xE2, CHR 0x80, CHR 0xA8], s)"
  "dec_esc (''u2029'' @ s) = Some ([CHR 0xE2, CHR 0x80, CHR 0xA9], s)"
  "dec_esc (''ufffd'' @ s) = Some (RuneError, s)"
  by (simp_all add: dec_esc_u getu4_def hex_val_def dec_rune_def utf8_def RuneError_def char_of_eq_iff)

lemma dec_esc_letters:
  "dec_esc (CHR ''n'' # s) = Some ([CHR 0x0A], s)" "dec_esc (CHR ''r'' # s) = Some ([CHR 0x0D], s)"
  "dec_esc (CHR ''t'' # s) = Some ([CHR 0x09], s)" "dec_esc (dquote # s) = Some ([dquote], s)"
  "dec_esc (bsl # s) = Some ([bsl], s)"
  by (simp_all add: dec_esc_def dquote_def bsl_def)

lemma enc_rune_long: "length r \<noteq> 1 \<Longrightarrow> enc_rune r =
    (if r = [CHR 0xE2, CHR 0x80, CHR 0xA8] then bsl # ''u2028''
     else if r = [CHR 0xE2, CHR 0x80, CHR 0xA9] then bsl # ''u2029'' else r)"
  by (auto simp: enc_rune_def)

lemma rune_hd:
  assumes "rune_len s = n" and "0 < n"
  shows "if n = 1 then (of_char (hd s) :: nat) < 0x80 else 0x80 \<le> (of_char (hd s) :: nat)"
  using assms by (cases s) (auto simp: rune_len_def Let_def split: if_splits)

lemma dec_enc_rune:
  assumes "rune_len s = n" and "0 < n"
  shows "dec_body (enc_rune (take n s) @ t) = prefixed (take n s) (dec_body t)"
proof -
  obtain c cs where s: "s = c # cs" using assms by (cases s) (auto simp: rune_len_def)
  have le: "n \<le> length s" using rune_len_le [of s] assms(1) by simp
  have esc: "dec_body (bsl # e @ t) = prefixed r (dec_body t)" if "dec_esc (e @ t) = Some (r, t)" for e r
    using that by (rule dec_body_escape)
  show ?thesis
  proof (cases "n = 1")
    case True
    then have small: "(of_char c :: nat) < 0x80" using rune_hd [OF assms] s by simp
    consider "c = dquote \<or> c = bsl" | "c = CHR 0x0A" | "c = CHR 0x0D" | "c = CHR 0x09"
      | "c \<notin> {dquote, bsl, CHR 0x0A, CHR 0x0D, CHR 0x09}" "of_char c < (32 :: nat) \<or> c \<in> set ''<>&''"
      | "c \<notin> {dquote, bsl}" "\<not> (of_char c < (32 :: nat) \<or> c \<in> set ''<>&'')" by blast
    then show ?thesis
    proof cases
      case 1
      then show ?thesis using True s esc [of "[c]" "[c]"] by (auto simp: enc_rune_def dec_esc_letters)
    next
      case 5
      then have "enc_rune [c] = bsl # ''u00'' @ [hex_digit (of_char c div 16), hex_digit (of_char c mod 16)]"
        by (simp add: enc_rune_def)
      moreover have "dec_esc ((''u00'' @ [hex_digit (of_char c div 16), hex_digit (of_char c mod 16)]) @ t) = Some ([c], t)"
        using dec_esc_u00 [OF small, of t] by simp
      ultimately show ?thesis using True s esc by (metis Cons_eq_appendI take_Suc_Cons One_nat_def take_0)
    next
      case 6
      then have "enc_rune [c] = [c]" by (auto simp: enc_rune_def)
      with 6 True s assms dec_body_rune [of s n t] show ?thesis by simp
    qed (use True s esc [of "[CHR ''n'']"] esc [of "[CHR ''r'']"] esc [of "[CHR ''t'']"] in
        \<open>simp_all add: enc_rune_def dec_esc_letters dquote_def bsl_def\<close>)
  next
    case False
    with assms le s have big: "0x80 \<le> (of_char c :: nat)" and len: "length (take n s) \<noteq> 1"
      using rune_hd [OF assms] by (simp_all add: min_def)
    have "c \<notin> {dquote, bsl}" using big by (auto simp: dquote_def bsl_def)
    with big have plain: "dec_body (take n s @ t) = prefixed (take n s) (dec_body t)"
      using assms s by (intro dec_body_rune) auto
    show ?thesis
      unfolding enc_rune_long [OF len]
      using plain esc [OF dec_esc_line_separator(1)] esc [OF dec_esc_line_separator(2)] by simp
  qed
qed

lemma dec_enc_body: "dec_body (enc_body s @ dquote # t) = Some (clean s, t)"
proof (induction s rule: enc_body.induct)
  case (2 c cs)
  note clean.simps(2) [simp]
  show ?case
  proof (cases "rune_len (c # cs) = 0")
    case True
    with 2 show ?thesis
      using dec_body_escape [OF dec_esc_line_separator(3), of "enc_body cs @ dquote # t"] by simp
  next
    case False
    with 2 show ?thesis
      using dec_enc_rune [OF refl, of "c # cs" "enc_body (drop (rune_len (c # cs) - 1) cs) @ dquote # t"]
      by (simp add: Let_def)
  qed
qed simp

text \<open>Most texts have nothing to escape.\<close>

definition plain_char :: "char \<Rightarrow> bool" where
  "plain_char c \<longleftrightarrow> (32 :: nat) \<le> of_char c \<and> of_char c < (0x80 :: nat) \<and> c \<notin> {dquote, bsl} \<union> set ''<>&''"

lemma rune_len_plain: "plain_char c \<Longrightarrow> rune_len (c # cs) = 1"
  by (simp add: rune_len_def plain_char_def)

lemma enc_rune_plain: "plain_char c \<Longrightarrow> enc_rune [c] = [c]"
  by (auto simp: enc_rune_def plain_char_def)

lemma enc_body_plain: "list_all plain_char s \<Longrightarrow> enc_body s = s"
proof (induction s)
  case (Cons c s)
  then show ?case by (simp add: rune_len_plain enc_rune_plain)
qed simp

lemma clean_plain: "list_all plain_char s \<Longrightarrow> clean s = s"
  by (rule clean_ascii) (auto simp: list_all_iff plain_char_def)

lemma enc_string_plain: "list_all plain_char s \<Longrightarrow> enc_string s = dquote # s @ [dquote]"
  by (simp add: enc_string_def enc_body_plain)

lemma unescaped_digit: "digit_val c \<noteq> None \<Longrightarrow> plain_char c"
  by (auto simp: plain_char_def dquote_def bsl_def digit_val_def Let_def split: if_splits)

lemma unescaped_Itoa [simp]: "list_all plain_char (Itoa n)"
proof -
  have "list_all plain_char (digits_of m)" for m
    using digits_of_chars unescaped_digit by (auto simp: list_all_iff)
  then show ?thesis by (auto simp: Itoa_def plain_char_def dquote_def bsl_def)
qed

lemma unescaped_fmt2 [simp]: "list_all plain_char (fmt2 x)"
  by (simp add: fmt2_def Let_def) (simp add: plain_char_def dquote_def bsl_def)

declare enc_body.simps(2) [simp del]

section \<open>Values\<close>

text \<open>A number keeps its text. The members of an object keep their order and duplicates.\<close>

datatype json = JNull | JBool bool | JNum string | JStr string | JArr "json list" | JObj "(string \<times> json) list"

fun commas :: "string list \<Rightarrow> string" where
  "commas [] = []"
| "commas [x] = x"
| "commas (x # y # xs) = x @ '','' @ commas (y # xs)"

definition member :: "string \<times> string \<Rightarrow> string" where
  "member kv = enc_string (fst kv) @ '':'' @ snd kv"

primrec enc :: "json \<Rightarrow> string" where
  "enc JNull = ''null''"
| "enc (JBool b) = (if b then ''true'' else ''false'')"
| "enc (JNum s) = s"
| "enc (JStr s) = enc_string s"
| "enc (JArr vs) = ''['' @ commas (map enc vs) @ '']''"
| "enc (JObj kvs) = ''{'' @ commas (map member (map (map_prod id enc) kvs)) @ ''}''"

text \<open>
  \<open>json.Marshal\<close>. Its errors are for types that no program here gives it (channels, cycles,
  infinite floats), so it has none on these values.
\<close>

definition Marshal :: "json \<Rightarrow> string + string" where
  "Marshal v = Inr (enc v)"

primrec clean_json :: "json \<Rightarrow> json" where
  "clean_json JNull = JNull"
| "clean_json (JBool b) = JBool b"
| "clean_json (JNum s) = JNum s"
| "clean_json (JStr s) = JStr (clean s)"
| "clean_json (JArr vs) = JArr (map clean_json vs)"
| "clean_json (JObj kvs) = JObj (map (map_prod clean clean_json) kvs)"

primrec depth :: "json \<Rightarrow> nat" where
  "depth JNull = 0"
| "depth (JBool b) = 0"
| "depth (JNum s) = 0"
| "depth (JStr s) = 0"
| "depth (JArr vs) = Suc (foldr max (map depth vs) 0)"
| "depth (JObj kvs) = Suc (foldr max (map snd (map (map_prod id depth) kvs)) 0)"

text \<open>Every number in a value is an integer as \<open>strconv\<close> prints it.\<close>

primrec int_nums :: "json \<Rightarrow> bool" where
  "int_nums JNull = True"
| "int_nums (JBool b) = True"
| "int_nums (JNum s) = (\<exists>n. s = Itoa n)"
| "int_nums (JStr s) = True"
| "int_nums (JArr vs) = list_all id (map int_nums vs)"
| "int_nums (JObj kvs) = list_all snd (map (map_prod id int_nums) kvs)"

section \<open>The scanner\<close>

datatype token = TSym char | TVal json

definition is_ws :: "char \<Rightarrow> bool" where
  "is_ws c \<longleftrightarrow> c = CHR '' '' \<or> c = CHR 0x09 \<or> c = CHR 0x0A \<or> c = CHR 0x0D"

text \<open>
  A number and what follows it: a minus sign, digits without a leading zero, and a fraction
  and an exponent that may be missing but not be empty.
\<close>

definition lex_int :: "string \<Rightarrow> (string \<times> string) option" where
  "lex_int s =
     (let m = (if take 1 s = ''-'' then ''-'' else []); r = drop (length m) s
      in if take 1 r = ''0'' then Some (m @ ''0'', drop 1 r)
         else if takeWhile is_digit r = [] then None
         else Some (m @ takeWhile is_digit r, dropWhile is_digit r))"

definition lex_frac :: "string \<Rightarrow> (string \<times> string) option" where
  "lex_frac s =
     (if take 1 s \<noteq> ''.'' then Some ([], s)
      else if takeWhile is_digit (drop 1 s) = [] then None
      else Some (''.'' @ takeWhile is_digit (drop 1 s), dropWhile is_digit (drop 1 s)))"

definition lex_exp :: "string \<Rightarrow> (string \<times> string) option" where
  "lex_exp s =
     (if take 1 s \<noteq> ''e'' \<and> take 1 s \<noteq> ''E'' then Some ([], s)
      else
        let m = (if take 1 (drop 1 s) = ''+'' \<or> take 1 (drop 1 s) = ''-'' then take 1 (drop 1 s) else []);
            r = drop (1 + length m) s
        in if takeWhile is_digit r = [] then None
           else Some (take 1 s @ m @ takeWhile is_digit r, dropWhile is_digit r))"

definition lex_num :: "string \<Rightarrow> (string \<times> string) option" where
  "lex_num s =
     (case lex_int s of
        None \<Rightarrow> None
      | Some (a, s1) \<Rightarrow>
          (case lex_frac s1 of
             None \<Rightarrow> None
           | Some (b, s2) \<Rightarrow>
               (case lex_exp s2 of
                  None \<Rightarrow> None
                | Some (c, s3) \<Rightarrow> Some (a @ b @ c, s3))))"

lemma dropWhile_drop_le: "length (dropWhile P (drop k s)) \<le> length s"
  using length_dropWhile_le [of P "drop k s"] by simp

lemma lex_int_shorter: "lex_int s = Some (a, t) \<Longrightarrow> length t < length s"
  using dropWhile_shorter [of is_digit "drop 1 s"] dropWhile_shorter [of is_digit s]
  by (auto simp: lex_int_def Let_def take_Suc numeral_eq_Suc split: if_splits) (cases s; simp)+

lemma lex_frac_le: "lex_frac s = Some (a, t) \<Longrightarrow> length t \<le> length s"
  by (auto simp: lex_frac_def intro: dropWhile_drop_le split: if_splits)

lemma lex_exp_le: "lex_exp s = Some (a, t) \<Longrightarrow> length t \<le> length s"
  by (auto simp: lex_exp_def Let_def intro: dropWhile_drop_le split: if_splits)

lemma lex_num_shorter: "lex_num s = Some (a, t) \<Longrightarrow> length t < length s"
  by (fastforce simp: lex_num_def dest: lex_int_shorter lex_frac_le lex_exp_le split: option.splits)

function lex :: "string \<Rightarrow> token list option" where
  "lex s =
     (case s of
        [] \<Rightarrow> Some []
      | c # cs \<Rightarrow>
          if is_ws c then lex cs
          else if c \<in> set ''{}[],:'' then map_option ((#) (TSym c)) (lex cs)
          else if c = dquote then
            (case dec_body cs of
               None \<Rightarrow> None
             | Some (v, t) \<Rightarrow> map_option ((#) (TVal (JStr v))) (lex t))
          else if take 4 s = ''null'' then map_option ((#) (TVal JNull)) (lex (drop 4 s))
          else if take 4 s = ''true'' then map_option ((#) (TVal (JBool True))) (lex (drop 4 s))
          else if take 5 s = ''false'' then map_option ((#) (TVal (JBool False))) (lex (drop 5 s))
          else
            (case lex_num s of
               None \<Rightarrow> None
             | Some (n, t) \<Rightarrow> map_option ((#) (TVal (JNum n))) (lex t)))"
  by pat_completeness auto
termination by (relation "measure length") (auto dest: dec_body_shorter lex_num_shorter)

declare lex.simps [simp del]

section \<open>The parser\<close>

text \<open>
  A state machine over tokens with a stack of open arrays and objects, which the library
  limits to 10000. In an object the state has the members so far.
\<close>

datatype mode = WantValue | WantFirst | WantKey "(string \<times> json) list" bool
  | WantColon "(string \<times> json) list" string | Complete json

datatype frame = FArr "json list" | FObj "(string \<times> json) list" string

definition maxNestingDepth :: nat where "maxNestingDepth = 10000"

definition begin_value :: "token \<Rightarrow> frame list \<Rightarrow> (mode \<times> frame list) option" where
  "begin_value tok st =
     (case tok of
        TVal v \<Rightarrow> Some (Complete v, st)
      | TSym c \<Rightarrow>
          if length st \<ge> maxNestingDepth then None
          else if c = CHR ''['' then Some (WantFirst, FArr [] # st)
          else if c = CHR ''{'' then Some (WantKey [] True, st)
          else None)"

definition end_value :: "json \<Rightarrow> char \<Rightarrow> frame list \<Rightarrow> (mode \<times> frame list) option" where
  "end_value v c st =
     (case st of
        [] \<Rightarrow> None
      | FArr vs # st' \<Rightarrow>
          if c = CHR '','' then Some (WantValue, FArr (vs @ [v]) # st')
          else if c = CHR '']'' then Some (Complete (JArr (vs @ [v])), st')
          else None
      | FObj kvs k # st' \<Rightarrow>
          if c = CHR '','' then Some (WantKey (kvs @ [(k, v)]) False, st')
          else if c = CHR ''}'' then Some (Complete (JObj (kvs @ [(k, v)])), st')
          else None)"

fun parse_step :: "mode \<times> frame list \<Rightarrow> token \<Rightarrow> (mode \<times> frame list) option" where
  "parse_step (WantValue, st) tok = begin_value tok st"
| "parse_step (WantFirst, st) tok =
     (if tok = TSym CHR '']'' then Some (Complete (JArr []), tl st) else begin_value tok st)"
| "parse_step (WantKey kvs first, st) tok =
     (case tok of
        TVal (JStr k) \<Rightarrow> Some (WantColon kvs k, st)
      | _ \<Rightarrow> if first \<and> tok = TSym CHR ''}'' then Some (Complete (JObj []), st) else None)"
| "parse_step (WantColon kvs k, st) tok =
     (if tok = TSym CHR '':'' then Some (WantValue, FObj kvs k # st) else None)"
| "parse_step (Complete v, st) tok = (case tok of TSym c \<Rightarrow> end_value v c st | TVal _ \<Rightarrow> None)"

fun parse_run :: "mode \<times> frame list \<Rightarrow> token list \<Rightarrow> json option" where
  "parse_run ms [] = (case ms of (Complete v, []) \<Rightarrow> Some v | _ \<Rightarrow> None)"
| "parse_run ms (tok # toks) = (case parse_step ms tok of None \<Rightarrow> None | Some ms' \<Rightarrow> parse_run ms' toks)"

text \<open>The value of a text, \<open>None\<close> when it is not JSON.\<close>

definition json_parse :: "string \<Rightarrow> json option" where
  "json_parse s = (case lex s of None \<Rightarrow> None | Some toks \<Rightarrow> parse_run (WantValue, []) toks)"

section \<open>Reading back\<close>

text \<open>The tokens of an encoded value.\<close>

fun tcommas :: "token list list \<Rightarrow> token list" where
  "tcommas [] = []"
| "tcommas [x] = x"
| "tcommas (x # y # xs) = x @ TSym CHR '','' # tcommas (y # xs)"

primrec toks :: "json \<Rightarrow> token list" where
  "toks JNull = [TVal JNull]"
| "toks (JBool b) = [TVal (JBool b)]"
| "toks (JNum s) = [TVal (JNum s)]"
| "toks (JStr s) = [TVal (JStr (clean s))]"
| "toks (JArr vs) = TSym CHR ''['' # tcommas (map toks vs) @ [TSym CHR '']'']"
| "toks (JObj kvs) = TSym CHR ''{'' #
     tcommas (map (\<lambda>kv. TVal (JStr (clean (fst kv))) # TSym CHR '':'' # snd kv) (map (map_prod id toks) kvs))
     @ [TSym CHR ''}'']"

definition ends_number :: "string \<Rightarrow> bool" where
  "ends_number t \<longleftrightarrow> (t = [] \<or> (\<not> is_digit (hd t) \<and> hd t \<notin> set ''.eE''))"

lemma ends_number_simps [simp]:
  "ends_number []" "ends_number (CHR '','' # t)" "ends_number (CHR '']'' # t)" "ends_number (CHR ''}'' # t)"
  by (simp_all add: ends_number_def is_digit_def digit_val_def)

lemma lex_sym [simp]:
  "lex (CHR '','' # t) = map_option ((#) (TSym CHR '','')) (lex t)"
  "lex (CHR '':'' # t) = map_option ((#) (TSym CHR '':'')) (lex t)"
  "lex (CHR ''['' # t) = map_option ((#) (TSym CHR ''['')) (lex t)"
  "lex (CHR '']'' # t) = map_option ((#) (TSym CHR '']'')) (lex t)"
  "lex (CHR ''{'' # t) = map_option ((#) (TSym CHR ''{'')) (lex t)"
  "lex (CHR ''}'' # t) = map_option ((#) (TSym CHR ''}'')) (lex t)"
  by (subst lex.simps, simp add: is_ws_def)+

lemma lex_string [simp]: "lex (enc_string s @ t) = map_option ((#) (TVal (JStr (clean s)))) (lex t)"
  by (subst lex.simps) (simp add: enc_string_def is_ws_def dquote_def dec_enc_body [unfolded dquote_def])

lemma lex_literals:
  "lex (''null'' @ t) = map_option ((#) (TVal JNull)) (lex t)"
  "lex (''true'' @ t) = map_option ((#) (TVal (JBool True))) (lex t)"
  "lex (''false'' @ t) = map_option ((#) (TVal (JBool False))) (lex t)"
  by (subst lex.simps, simp add: is_ws_def dquote_def)+

lemma takeWhile_digits:
  "list_all is_digit ds \<Longrightarrow> ends_number t \<Longrightarrow> takeWhile is_digit (ds @ t) = ds \<and> dropWhile is_digit (ds @ t) = t"
  by (cases t) (auto simp: ends_number_def list_all_iff)

text \<open>No leading zero but in the number zero.\<close>

lemma digits_of_hd: "hd (digits_of n) = digit 0 \<longleftrightarrow> n = 0"
proof (induction n rule: digits_of.induct)
  case (1 n)
  have inj: "digit d = digit 0 \<longleftrightarrow> d = 0" if "d < 10" for d
    using that by (metis digit_val_digit option.inject zero_less_numeral)
  show ?case
    using 1 inj by (cases "n < 10") (auto simp: digits_of.simps [of n] div_eq_0_iff)
qed

lemma digits_of_all: "list_all is_digit (digits_of n)"
  using digits_of_chars by (auto simp: list_all_iff is_digit_def)

lemma digit_0: "digit 0 = CHR ''0''"
  by (simp add: digit_def char_of_eq_iff)

lemma lex_int_digits:
  assumes "ends_number t" and "m = [] \<or> m = ''-''"
  shows "lex_int (m @ digits_of n @ t) = Some (m @ digits_of n, t)"
proof -
  obtain d ds where d: "digits_of n = d # ds" by (cases "digits_of n") simp_all
  have all: "takeWhile is_digit (digits_of n @ t) = digits_of n" "dropWhile is_digit (digits_of n @ t) = t"
    using takeWhile_digits [OF digits_of_all assms(1)] by auto
  have zero: "d = CHR ''0'' \<Longrightarrow> ds = []"
    using digits_of_hd [of n] d by (simp add: digit_0 digits_of.simps [of 0])
  have "d \<noteq> CHR ''-''" using digits_of_no_sign(1) [of n] d by auto
  then have "lex_int (m @ digits_of n @ t) =
     (if d = CHR ''0'' then Some (m @ ''0'', ds @ t) else Some (m @ digits_of n, t))"
    using assms(2) all d by (auto simp: lex_int_def Let_def)
  with zero d show ?thesis by auto
qed

lemma lex_num_Itoa: "ends_number t \<Longrightarrow> lex_num (Itoa n @ t) = Some (Itoa n, t)"
  using lex_int_digits [of t "[]"] lex_int_digits [of t "''-''"]
  by (cases t) (auto simp: lex_num_def Itoa_def lex_frac_def lex_exp_def ends_number_def)

lemma Itoa_hd: "hd (Itoa n) = CHR ''-'' \<or> is_digit (hd (Itoa n))"
  using digits_of_all [of "nat n"] by (cases "digits_of (nat n)") (auto simp: Itoa_def)

lemma lex_Itoa:
  assumes "ends_number t"
  shows "lex (Itoa n @ t) = map_option ((#) (TVal (JNum (Itoa n)))) (lex t)"
proof -
  obtain c cs where c: "Itoa n = c # cs" by (cases "Itoa n") auto
  then have c': "c = CHR ''-'' \<or> is_digit c" using Itoa_hd [of n] by simp
  then have "\<not> is_ws c" "c \<notin> set ''{}[],:''" "c \<noteq> dquote" "c \<noteq> CHR ''n''" "c \<noteq> CHR ''t''" "c \<noteq> CHR ''f''"
    by (auto simp: is_ws_def dquote_def is_digit_def digit_val_def)
  then show ?thesis
    using lex_num_Itoa [OF assms, of n] c by (subst lex.simps) auto
qed

lemma lex_commas:
  assumes "\<And>x t. x \<in> set xs \<Longrightarrow> ends_number t \<Longrightarrow> lex (f x @ t) = map_option ((@) (g x)) (lex t)"
    and "ends_number t"
  shows "lex (commas (map f xs) @ t) = map_option ((@) (tcommas (map g xs))) (lex t)"
  using assms(1)
proof (induction xs rule: induct_list012)
  case (3 x y zs)
  then show ?case
    by (simp add: option.map_comp comp_def)
next
  case 1
  show ?case by (cases "lex t") simp_all
qed (use assms(2) in simp)

lemma append_Cons_fun: "(@) (x # xs) = (\<lambda>ys. x # xs @ ys)"
  by auto

lemma lex_enc: "int_nums v \<Longrightarrow> ends_number t \<Longrightarrow> lex (enc v @ t) = map_option ((@) (toks v)) (lex t)"
proof (induction v arbitrary: t)
  case (JNum s)
  then show ?case using lex_Itoa by (auto simp: comp_def)
next
  case (JArr vs)
  then have "lex (commas (map enc vs) @ CHR '']'' # t) = map_option ((@) (tcommas (map toks vs))) (lex (CHR '']'' # t))"
    by (intro lex_commas) (auto simp: list_all_iff)
  then show ?case by (simp add: option.map_comp comp_def)
next
  case (JObj kvs)
  let ?e = "\<lambda>kv. member (map_prod id enc kv)"
  let ?t = "\<lambda>kv. TVal (JStr (clean (fst kv))) # TSym CHR '':'' # toks (snd kv)"
  have "lex (?e kv @ u) = map_option ((@) (?t kv)) (lex u)" if "kv \<in> set kvs" "ends_number u" for kv u
  proof -
    have "int_nums (snd kv)" using JObj.prems(1) that(1) by (auto simp: list_all_iff)
    then have "lex (enc (snd kv) @ u) = map_option ((@) (toks (snd kv))) (lex u)"
      using JObj.IH [of kv "snd kv" u] that by (cases kv) auto
    then show ?thesis by (simp add: member_def option.map_comp comp_def append_Cons_fun)
  qed
  then have "lex (commas (map ?e kvs) @ CHR ''}'' # t) = map_option ((@) (tcommas (map ?t kvs))) (lex (CHR ''}'' # t))"
    by (intro lex_commas) auto
  then show ?case by (simp add: option.map_comp comp_def)
qed (use lex_literals in \<open>auto simp: comp_def append_Cons_fun\<close>)

text \<open>The machine over the tokens of a value.\<close>

lemma foldr_max_le: "foldr max (xs :: nat list) 0 \<le> n \<longleftrightarrow> (\<forall>x\<in>set xs. x \<le> n)"
  by (induction xs) auto

lemma run_elems:
  assumes "\<And>v st ts. v \<in> set vs \<Longrightarrow> depth v + length st \<le> maxNestingDepth \<Longrightarrow>
      parse_run (WantValue, st) (toks v @ ts) = parse_run (Complete (clean_json v), st) ts"
    and "vs \<noteq> []" and "\<forall>v\<in>set vs. depth v + Suc (length st) \<le> maxNestingDepth"
  shows "parse_run (WantValue, FArr ws # st) (tcommas (map toks vs) @ TSym CHR '']'' # ts)
       = parse_run (Complete (JArr (ws @ map clean_json vs)), st) ts"
  using assms
proof (induction vs arbitrary: ws rule: induct_list012)
  case (3 x y zs)
  from 3(2) [of "ws @ [clean_json x]"] 3(3-) show ?case by (simp add: end_value_def)
qed (simp_all add: end_value_def)

lemma run_members:
  assumes "\<And>kv st ts. kv \<in> set kvs \<Longrightarrow> depth (snd kv) + length st \<le> maxNestingDepth \<Longrightarrow>
      parse_run (WantValue, st) (toks (snd kv) @ ts) = parse_run (Complete (clean_json (snd kv)), st) ts"
    and "kvs \<noteq> []" and "\<forall>kv\<in>set kvs. depth (snd kv) + Suc (length st) \<le> maxNestingDepth"
  shows "parse_run (WantKey ws first, st)
        (tcommas (map (\<lambda>kv. TVal (JStr (clean (fst kv))) # TSym CHR '':'' # toks (snd kv)) kvs) @ TSym CHR ''}'' # ts)
       = parse_run (Complete (JObj (ws @ map (map_prod clean clean_json) kvs)), st) ts"
  using assms
proof (induction kvs arbitrary: ws first rule: induct_list012)
  case (3 x y zs)
  from 3(2) [of "ws @ [(clean (fst x), clean_json (snd x))]" False] 3(3-)
    3(3) [of x "FObj ws (clean (fst x)) # st"] show ?case
    by (cases x) (simp add: end_value_def)
next
  case (2 x)
  with 2(1) [of x "FObj ws (clean (fst x)) # st"] show ?case by (cases x) (simp add: end_value_def)
qed simp

lemma toks_elems_hd: "vs \<noteq> [] \<Longrightarrow> \<exists>tok r. tcommas (map toks vs) = tok # r \<and> tok \<noteq> TSym CHR '']''"
proof -
  have "\<exists>tok r. toks v = tok # r \<and> tok \<noteq> TSym CHR '']''" for v by (cases v) auto
  then show "vs \<noteq> [] \<Longrightarrow> ?thesis"
    by (induction vs rule: induct_list012) (simp, simp, metis append_Cons list.simps(9) tcommas.simps(3))
qed

lemma run_toks:
  "depth v + length st \<le> maxNestingDepth \<Longrightarrow>
     parse_run (WantValue, st) (toks v @ ts) = parse_run (Complete (clean_json v), st) ts"
proof (induction v arbitrary: st ts)
  case (JArr vs)
  show ?case
  proof (cases "vs = []")
    case True
    with JArr.prems show ?thesis by (simp add: begin_value_def)
  next
    case False
    have d: "\<forall>v\<in>set vs. depth v + Suc (length st) \<le> maxNestingDepth"
      using JArr.prems foldr_max_le [of "map depth vs" "maxNestingDepth - Suc (length st)"]
      by (fastforce simp: le_diff_conv)
    have "parse_run (WantFirst, FArr [] # st) (tcommas (map toks vs) @ TSym CHR '']'' # ts)
        = parse_run (WantValue, FArr [] # st) (tcommas (map toks vs) @ TSym CHR '']'' # ts)"
      using toks_elems_hd [OF False] by auto
    with run_elems [of vs st "[]" ts] JArr.IH False d JArr.prems show ?thesis
      by (simp add: begin_value_def)
  qed
next
  case (JObj kvs)
  show ?case
  proof (cases "kvs = []")
    case True
    with JObj.prems show ?thesis by (simp add: begin_value_def)
  next
    case False
    have "\<forall>kv\<in>set kvs. depth (snd kv) + Suc (length st) \<le> maxNestingDepth"
      using JObj.prems foldr_max_le [of "map (snd \<circ> map_prod id depth) kvs" "maxNestingDepth - Suc (length st)"]
      by (fastforce simp: le_diff_conv)
    moreover have "parse_run (WantValue, st) (toks (snd kv) @ ts) = parse_run (Complete (clean_json (snd kv)), st) ts"
      if "kv \<in> set kvs" "depth (snd kv) + length st \<le> maxNestingDepth" for kv st ts
      using JObj.IH [of kv "snd kv" st ts] that by (cases kv) auto
    ultimately show ?thesis
      using run_members [of kvs st "[]" True ts] False JObj.prems by (simp add: begin_value_def comp_def)
  qed
qed (simp_all add: begin_value_def)

text \<open>\<open>Unmarshal\<close> reads what \<open>Marshal\<close> has written.\<close>

lemma parse_enc:
  assumes "int_nums v" and "depth v \<le> maxNestingDepth"
  shows "json_parse (enc v) = Some (clean_json v)"
  using lex_enc [OF assms(1), of "[]"] run_toks [of v "[]" "[]"] assms(2)
  by (simp add: json_parse_def lex.simps [of "[]"])

end
