(* ===== verification/Seccomp.thy ===== *)
theory Seccomp
  imports GoJson "HOL-Library.Char_ord" "HOL-Library.List_Lexorder"
begin

text \<open>
  \<open>lambda/seccomp-allowlist/cmd/main.go\<close>: which socket system calls the sandbox allows. The
  server runs the calls one after the other and notes each outcome in a map under a lock;
  a client goroutine, started after \<open>listen\<close>, does the same for its side, and nobody waits
  for it. The operating system is a parameter: the outcome of each call.
\<close>

section \<open>Results\<close>


record result =
  Success :: bool
  Err :: string

text \<open>An \<open>error\<close> is its message; nil is \<open>None\<close>.\<close>

definition NewResult :: "string \<Rightarrow> string option \<Rightarrow> result" where
  "NewResult name err =
     (case err of None \<Rightarrow> \<lparr>Success = True, Err = []\<rparr> | Some e \<Rightarrow> \<lparr>Success = False, Err = e\<rparr>)"

record Syscalls =
  EventID :: string
  Results :: "string \<rightharpoonup> result"

definition NewSyscalls :: "string \<Rightarrow> Syscalls" where
  "NewSyscalls i = \<lparr>EventID = i, Results = Map.empty\<rparr>"

definition AddResult :: "string \<times> string option \<Rightarrow> Syscalls \<Rightarrow> Syscalls" where
  "AddResult ne sc = sc\<lparr>Results := (Results sc)(fst ne \<mapsto> NewResult (fst ne) (snd ne))\<rparr>"

section \<open>The two sides\<close>









definition Test :: "(string \<times> string option) list \<Rightarrow> Syscalls \<Rightarrow> Syscalls" where
  "Test calls sc = fold AddResult calls sc"

text \<open>
  The report as JSON. The embedded mutex has no exported field, so it leaves no trace; the
  keys of a map are sorted.
\<close>

definition json_result :: "result \<Rightarrow> json" where
  "json_result r = JObj [(''success'', JBool (Success r)), (''err'', JStr (Err r))]"

definition json_Syscalls :: "Syscalls \<Rightarrow> json" where
  "json_Syscalls sc = JObj [(''id'', JStr (EventID sc)),
     (''results'', JObj (map (\<lambda>k. (k, json_result (the (Results sc k)))) (sorted_list_of_set (dom (Results sc)))))]"

text \<open>
  \<open>HandleRequest\<close>: \<open>event.ID\<close> is read for the log before the nil check. The result is an
  error, or the message and what was logged with it as the format.
\<close>

definition HandleRequest :: "(string \<times> string option) list \<Rightarrow> string option
    \<Rightarrow> go_stop + (string + string \<times> string option)" where
  "HandleRequest calls event =
     (case event of
        None \<Rightarrow> Inl (Panic ''nil pointer dereference'')
      | Some i \<Rightarrow>
          (case Marshal (json_Syscalls (Test calls (NewSyscalls i))) of
             Inl e \<Rightarrow> Inr (Inl (''Error marshal json: '' @ e))
           | Inr message \<Rightarrow> Inr (Inr (message, Printf0 message))))"

text \<open>\<open>main\<close>: with \<open>LOCAL_DEV\<close> set the handler is called once, and its result is dropped.\<close>

definition seccomp_main :: "(string \<times> string option) list \<Rightarrow> string
    \<Rightarrow> (go_stop + (string + string \<times> string option)) option" where
  "seccomp_main calls local_dev =
     (if local_dev = [] then None else Some (HandleRequest calls (Some ''12345'')))"

lemma seccomp_main_never_stops: "seccomp_main calls local_dev \<noteq> Some (Inl stop)"
  by (auto simp: seccomp_main_def HandleRequest_def split: sum.splits)

section \<open>Lemmas\<close>

text \<open>A name's entry comes from the last call that added it.\<close>

definition last_added :: "string \<Rightarrow> (string \<times> string option) list \<Rightarrow> string option option" where
  "last_added name calls = (let cs = filter (\<lambda>c. fst c = name) calls in if cs = [] then None else Some (snd (last cs)))"








text \<open>What the server's calls leave, per name.\<close>

lemma last_added_simps [simp]:
  "last_added name [] = None"
  "last_added name (calls @ [c]) = (if fst c = name then Some (snd c) else last_added name calls)"
  by (simp_all add: last_added_def Let_def)




section \<open>The message\<close>












section \<open>Properties\<close>




end
