(* ===== verification/Perf.thy ===== *)
theory Perf
  imports GoJson
begin

text \<open>
  The two throughput lambdas, \<open>lambda/s3perf/cmd/main.go\<close> and \<open>lambda/cpuperf/cmd/main.go\<close>:
  loops that work for 25 seconds of wall-clock time and report a rate. \<open>since k\<close> is the value
  of \<open>time.Since(start)\<close> at its \<open>k\<close>-th evaluation, in nanoseconds; the S3 client is a
  parameter. Rates are exact rationals where the code has \<open>float64\<close>.
\<close>

section \<open>Timed loops\<close>

text \<open>
  \<open>for time.Since(start) < limit { body }\<close>, where the body may return early. \<open>None\<close> is a loop
  that never ends; otherwise the number of completed turns is returned with the state.
\<close>

partial_function (option) timed ::
  "(nat \<Rightarrow> int) \<Rightarrow> int \<Rightarrow> (nat \<Rightarrow> 's \<Rightarrow> 'e + 's) \<Rightarrow> nat \<Rightarrow> 's \<Rightarrow> ('e + nat \<times> 's) option" where
  "timed since limit body k s =
     (if since k < limit
      then (case body k s of Inl e \<Rightarrow> Some (Inl e) | Inr s' \<Rightarrow> timed since limit body (Suc k) s')
      else Some (Inr (k, s)))"

text \<open>It returns as soon as the clock has passed the limit at some turn.\<close>

lemma timed_returns:
  "limit \<le> since (k + d) \<Longrightarrow> \<exists>r. timed since limit body k s = Some r"
proof (induction d arbitrary: k s)
  case 0
  then show ?case by (subst timed.simps) simp
next
  case (Suc d)
  then have "\<exists>r. timed since limit body (Suc k) s' = Some r" for s' by simp
  then show ?case by (subst timed.simps) (simp split: sum.splits)
qed

text \<open>With bodies that succeed, the state after \<open>n\<close> turns.\<close>

lemma timed_runs:
  assumes "\<And>j. k \<le> j \<Longrightarrow> j < k + d \<Longrightarrow> since j < limit \<and> body j (st j) = Inr (st (Suc j))"
    and "limit \<le> since (k + d)"
  shows "timed since limit body k (st k) = Some (Inr (k + d, st (k + d)))"
  using assms
proof (induction d arbitrary: k)
  case 0
  then show ?case by (subst timed.simps) simp
next
  case (Suc d)
  have "timed since limit body (Suc k) (st (Suc k)) = Some (Inr (Suc k + d, st (Suc k + d)))"
    using Suc.prems by (intro Suc.IH) simp_all
  moreover have "since k < limit \<and> body k (st k) = Inr (st (Suc k))" using Suc.prems(1) [of k] by simp
  ultimately show ?case by (subst timed.simps) simp
qed

section \<open>Reporting\<close>

definition DUR :: int where "DUR = 25 * Second"

record perf_result =
  Throughput :: string
  Err :: string

definition NewResult :: "string \<Rightarrow> string option \<Rightarrow> perf_result" where
  "NewResult tpt err = \<lparr>Throughput = tpt, Err = (case err of None \<Rightarrow> [] | Some e \<Rightarrow> e)\<rparr>"

text \<open>
  The end of both handlers: the result as JSON, which is also the format of a log line. What is
  returned is an error, or the message and what was logged.
\<close>

type_synonym reply = "string + string \<times> string option"

definition json_perf :: "perf_result \<Rightarrow> json" where
  "json_perf r = JObj [(''throughput'', JStr (Throughput r)), (''err'', JStr (Err r))]"

definition respond :: "perf_result \<Rightarrow> reply" where
  "respond res =
     (case Marshal (json_perf res) of
        Inl x \<Rightarrow> Inl (''Error marshal json: '' @ x)
      | Inr message \<Rightarrow> Inr (message, Printf0 message))"

definition seconds :: "int \<Rightarrow> rat" where
  "seconds ns = of_int ns / of_int Second"

section \<open>S3\<close>

definition MB :: int where "MB = 1048576"
definition BUFSZ :: int where "BUFSZ = 6 * MB"

type_synonym part = "string \<times> int"

text \<open>
  The client: the upload ID of a new multipart upload, the ETag of a part, the outcome of
  completing an upload with a list of parts, and of the \<open>k\<close>-th ranged read.
\<close>

record s3cli =
  CreateMultipartUpload :: "string + string"
  UploadPart :: "string \<Rightarrow> int \<Rightarrow> string + string"
  CompleteMultipartUpload :: "string \<Rightarrow> part list \<Rightarrow> string option"
  GetObject :: "nat \<Rightarrow> string \<Rightarrow> string option"

definition upload_body :: "s3cli \<Rightarrow> string \<Rightarrow> nat \<Rightarrow> part list \<times> int \<Rightarrow> string + part list \<times> int" where
  "upload_body cli uploadID k s =
     (let partNumber = int k + 1
      in (case UploadPart cli uploadID partNumber of
            Inl e \<Rightarrow> Inl (''Error UploadPart: '' @ e)
          | Inr etag \<Rightarrow> Inr (fst s @ [(etag, partNumber)], snd s + BUFSZ)))"

definition read_range :: string where
  "read_range = ''bytes='' @ Itoa 0 @ ''-'' @ Itoa BUFSZ"

definition read_body :: "s3cli \<Rightarrow> nat \<Rightarrow> int \<Rightarrow> string + int" where
  "read_body cli k nbyte =
     (case GetObject cli k read_range of Some e \<Rightarrow> Inl (''Error GetObject: '' @ e) | None \<Rightarrow> Inr (nbyte + BUFSZ))"

definition report_mb :: "(nat \<Rightarrow> int) \<Rightarrow> nat \<Rightarrow> int \<Rightarrow> perf_result" where
  "report_mb since k nbyte =
     (let mb = of_int nbyte / of_int MB; tpt = mb / seconds (since k) in NewResult (fmt2 tpt @ ''MB/s'') None)"

definition s3perf :: "(nat \<Rightarrow> int) \<Rightarrow> s3cli \<Rightarrow> string \<Rightarrow> perf_result option" where
  "s3perf since cli typ =
     (if typ = ''write'' then
        (case CreateMultipartUpload cli of
           Inl e \<Rightarrow> Some (NewResult [] (Some (''Error CreateMultipartUpload: '' @ e)))
         | Inr uploadID \<Rightarrow>
             (case timed since DUR (upload_body cli uploadID) 0 ([], 0) of
                None \<Rightarrow> None
              | Some (Inl e) \<Rightarrow> Some (NewResult [] (Some e))
              | Some (Inr (k, completedParts, nbyte)) \<Rightarrow>
                  (case CompleteMultipartUpload cli uploadID completedParts of
                     Some e \<Rightarrow> Some (NewResult [] (Some (''Error CompleteMultipartUpload: '' @ e)))
                   | None \<Rightarrow> Some (report_mb since (Suc k) nbyte))))
      else if typ = ''read'' then
        (case timed since DUR (read_body cli) 0 0 of
           None \<Rightarrow> None
         | Some (Inl e) \<Rightarrow> Some (NewResult [] (Some e))
         | Some (Inr (k, nbyte)) \<Rightarrow> Some (report_mb since (Suc k) nbyte))
      else Some (report_mb since 0 0))"

text \<open>\<open>HandleRequest\<close> reads \<open>event.ObjPath\<close> for its log before it looks whether the event is nil.\<close>

record event =
  Type :: string
  ObjPath :: string

definition HandleRequest :: "(event \<Rightarrow> perf_result option) \<Rightarrow> string option \<Rightarrow> event option
    \<Rightarrow> (go_stop + reply) option" where
  "HandleRequest perf sess_err ev =
     (case ev of
        None \<Rightarrow> Some (Inl (Panic ''nil pointer dereference''))
      | Some e \<Rightarrow>
          (case sess_err of
             Some x \<Rightarrow> Some (Inr (Inl x))
           | None \<Rightarrow> map_option (\<lambda>res. Inr (respond res)) (perf e)))"

section \<open>CPU\<close>

definition NUM_IT :: int64 where "NUM_IT = 1000000"

text \<open>A turn counts a million iterations of a float computation whose result is never used.\<close>

definition cpu_body :: "nat \<Rightarrow> int64 \<Rightarrow> string + int64" where
  "cpu_body k i = Inr (i + NUM_IT)"

definition cpuperf :: "(nat \<Rightarrow> int) \<Rightarrow> perf_result option" where
  "cpuperf since =
     (case timed since DUR cpu_body 0 0 of
        Some (Inr (k, i)) \<Rightarrow>
          (let tpt = of_int (uint i) / 1000000 / seconds (since (Suc k))
           in Some (NewResult (fmt2 tpt @ ''M iterations/s'') None))
      | _ \<Rightarrow> None)"

text \<open>This lambda logs the event whole, so a nil event gets its error.\<close>

definition HandleRequest_cpu :: "(nat \<Rightarrow> int) \<Rightarrow> unit option \<Rightarrow> reply option" where
  "HandleRequest_cpu since ev =
     (case ev of
        None \<Rightarrow> Some (Inl ''received nil event'')
      | Some u \<Rightarrow> map_option respond (cpuperf since))"

section \<open>Running locally\<close>

text \<open>
  \<open>main\<close> hands the handler to the platform unless \<open>LOCAL_DEV\<close> is set; then it calls it and
  logs \<open>*res\<close>, which is nil when the handler has returned an error. The result is what was
  logged.
\<close>

definition log_result :: "reply \<Rightarrow> go_stop + string" where
  "log_result r = (case r of Inl err \<Rightarrow> Inl (Panic ''nil pointer dereference'') | Inr (message, _) \<Rightarrow> Inr message)"

definition s3perf_main :: "(event \<Rightarrow> (go_stop + reply) option) \<Rightarrow> string \<Rightarrow> (go_stop + string list) option" where
  "s3perf_main handle local_dev =
     (if local_dev = [] then Some (Inr [])
      else (case handle \<lparr>Type = ''write'', ObjPath = ''s3perf-test-obj''\<rparr> of
              None \<Rightarrow> None
            | Some (Inl stop) \<Rightarrow> Some (Inl stop)
            | Some (Inr r1) \<Rightarrow>
                (case log_result r1 of
                   Inl stop \<Rightarrow> Some (Inl stop)
                 | Inr m1 \<Rightarrow>
                     (case handle \<lparr>Type = ''read'', ObjPath = ''s3perf-test-obj''\<rparr> of
                        None \<Rightarrow> None
                      | Some (Inl stop) \<Rightarrow> Some (Inl stop)
                      | Some (Inr r2) \<Rightarrow> Some (map_sum id (\<lambda>m2. [m1, m2]) (log_result r2))))))"

definition cpuperf_main :: "(nat \<Rightarrow> int) \<Rightarrow> string \<Rightarrow> (go_stop + string list) option" where
  "cpuperf_main since local_dev =
     (if local_dev = [] then Some (Inr [])
      else map_option (\<lambda>r. map_sum id (\<lambda>m. [m]) (log_result r)) (HandleRequest_cpu since (Some ())))"

text \<open>An error that the local run wants to log, such as one from the AWS session, ends it.\<close>

lemma s3perf_main_session_error:
  "local_dev \<noteq> [] \<Longrightarrow>
     s3perf_main (\<lambda>e. HandleRequest perf (Some err) (Some e)) local_dev = Some (Inl (Panic ''nil pointer dereference''))"
  by (simp add: s3perf_main_def HandleRequest_def log_result_def)

section \<open>What the loops compute\<close>

text \<open>The state of the upload after \<open>k\<close> turns: parts \<open>1, \<dots>, k\<close>.\<close>

definition uploaded :: "(int \<Rightarrow> string) \<Rightarrow> nat \<Rightarrow> part list \<times> int" where
  "uploaded etag k = (map (\<lambda>j. (etag (int j + 1), int j + 1)) [0..<k], int k * BUFSZ)"

lemma upload_body_ok:
  "UploadPart cli uid (int k + 1) = Inr (etag (int k + 1)) \<Longrightarrow>
     upload_body cli uid k (uploaded etag k) = Inr (uploaded etag (Suc k))"
  by (simp add: upload_body_def uploaded_def Let_def algebra_simps)

lemma upload_runs:
  assumes "\<forall>j<n. since j < DUR \<and> UploadPart cli uid (int j + 1) = Inr (etag (int j + 1))" and "DUR \<le> since n"
  shows "timed since DUR (upload_body cli uid) 0 ([], 0) = Some (Inr (n, uploaded etag n))"
  using timed_runs [of 0 n since DUR "upload_body cli uid" "uploaded etag"] assms
  by (simp add: upload_body_ok) (simp add: uploaded_def)

text \<open>The message reads back as the result, up to bytes that are not UTF-8.\<close>

definition read_perf :: "json \<Rightarrow> perf_result option" where
  "read_perf v =
     (case v of
        JObj [(k, JStr t), (k', JStr e)] \<Rightarrow>
          if k = ''throughput'' \<and> k' = ''err'' then Some \<lparr>Throughput = t, Err = e\<rparr> else None
      | _ \<Rightarrow> None)"

lemma respond_reads_back:
  "\<exists>message. respond r = Inr (message, Printf0 message)
     \<and> Option.bind (json_parse message) read_perf = Some \<lparr>Throughput = clean (Throughput r), Err = clean (Err r)\<rparr>"
proof -
  have "json_parse (enc (json_perf r)) = Some (clean_json (json_perf r))"
    by (rule parse_enc) (simp_all add: json_perf_def maxNestingDepth_def)
  then show ?thesis by (simp add: respond_def Marshal_def json_perf_def read_perf_def clean_ascii)
qed

lemma clean_rate: "list_all plain_char u \<Longrightarrow> clean (fmt2 x @ u) = fmt2 x @ u"
  by (rule clean_plain) simp







section \<open>Properties\<close>

text \<open>
  A write run of S3 whose clock passes 25 seconds after \<open>n\<close> parts completes the upload with
  exactly the parts \<open>1, \<dots>, n\<close>, in order and each with the ETag S3 gave it, and reports
  \<open>6 n\<close> MB over the elapsed time; if S3 refuses the completion, that is the error.
\<close>

lemma s3_write_run:
  assumes "CreateMultipartUpload cli = Inr uid"
    and "\<forall>j<n. since j < DUR \<and> UploadPart cli uid (int j + 1) = Inr (etag (int j + 1))" and "DUR \<le> since n"
  shows "s3perf since cli ''write'' =
    (case CompleteMultipartUpload cli uid (map (\<lambda>j. (etag (int j + 1), int j + 1)) [0..<n]) of
       Some e \<Rightarrow> Some (NewResult [] (Some (''Error CompleteMultipartUpload: '' @ e)))
     | None \<Rightarrow> Some (NewResult (fmt2 (6 * of_nat n / seconds (since (Suc n))) @ ''MB/s'') None))"
  using assms(1) upload_runs [OF assms(2,3)]
  by (simp add: s3perf_def uploaded_def report_mb_def BUFSZ_def MB_def Let_def split: option.splits)

definition demo_s3 :: s3cli where
  "demo_s3 = \<lparr>CreateMultipartUpload = Inr ''u'', UploadPart = (\<lambda>u k. Inr (Itoa k)),
     CompleteMultipartUpload = (\<lambda>u parts. if map snd parts = [1, 2] then None else Some ''bad parts''),
     GetObject = (\<lambda>k r. None)\<rparr>"

lemma s3_write_run_example:
  "s3perf (\<lambda>k. int k * 15 * Second) demo_s3 ''write'' = Some (NewResult (fmt2 (12 / 45) @ ''MB/s'') None)"
  using s3_write_run [of demo_s3 "''u''" 2 "\<lambda>k. int k * 15 * Second" Itoa]
  by (simp add: demo_s3_def DUR_def Second_def seconds_def less_Suc_eq numeral_2_eq_2)

text \<open>
  C36. The message of a write run says what happened: when the clock passes 25 seconds after \<open>n\<close>
  parts, the upload has been completed with exactly the parts \<open>1, \<dots>, n\<close>, in order and each
  with the ETag S3 gave it, and a JSON reader of the message finds \<open>6 n\<close> MB over the elapsed
  time and no error; if S3 has refused the completion it finds no rate and that error, with
  U+FFFD for what is not UTF-8 in it.
\<close>

theorem s3_write_message:
  assumes "CreateMultipartUpload cli = Inr uid"
    and "\<forall>j<n. since j < DUR \<and> UploadPart cli uid (int j + 1) = Inr (etag (int j + 1))" and "DUR \<le> since n"
  shows "\<exists>message. HandleRequest (\<lambda>e. s3perf since cli (Type e)) None (Some \<lparr>Type = ''write'', ObjPath = key\<rparr>)
        = Some (Inr (Inr (message, Printf0 message)))
    \<and> Option.bind (json_parse message) read_perf =
        Some (case CompleteMultipartUpload cli uid (map (\<lambda>j. (etag (int j + 1), int j + 1)) [0..<n]) of
            Some e \<Rightarrow> \<lparr>Throughput = [], Err = clean (''Error CompleteMultipartUpload: '' @ e)\<rparr>
          | None \<Rightarrow> \<lparr>Throughput = fmt2 (6 * of_nat n / seconds (since (Suc n))) @ ''MB/s'', Err = []\<rparr>)"
proof -
  let ?complete = "CompleteMultipartUpload cli uid (map (\<lambda>j. (etag (int j + 1), int j + 1)) [0..<n])"
  define r where "r = (case ?complete of
      Some e \<Rightarrow> NewResult [] (Some (''Error CompleteMultipartUpload: '' @ e))
    | None \<Rightarrow> NewResult (fmt2 (6 * of_nat n / seconds (since (Suc n))) @ ''MB/s'') None)"
  have "s3perf since cli ''write'' = Some r"
    using s3_write_run [OF assms] by (simp add: r_def split: option.splits)
  moreover have "clean (fmt2 x @ ''MB/s'') = fmt2 x @ ''MB/s''" for x
    by (rule clean_rate) (simp add: plain_char_def dquote_def bsl_def)
  ultimately show ?thesis
    using respond_reads_back [of r] by (auto simp: HandleRequest_def r_def NewResult_def split: option.splits)
qed

theorem s3_write_message_witness:
  "\<exists>message. HandleRequest (\<lambda>e. s3perf (\<lambda>k. int k * 15 * Second) demo_s3 (Type e)) None
        (Some \<lparr>Type = ''write'', ObjPath = ''obj''\<rparr>) = Some (Inr (Inr (message, Printf0 message)))
    \<and> Option.bind (json_parse message) read_perf = Some \<lparr>Throughput = fmt2 (12 / 45) @ ''MB/s'', Err = []\<rparr>"
  using s3_write_message [of demo_s3 "''u''" 2 "\<lambda>k. int k * 15 * Second" Itoa "''obj''"]
  by (simp add: demo_s3_def DUR_def Second_def seconds_def less_Suc_eq numeral_2_eq_2)



text \<open>
  A run of any type returns, whatever the client answers, once the clock passes 25 seconds
  at some turn; a run that is neither a write nor a read never touches S3, and reports a
  rate of zero instead of an error.
\<close>

theorem s3perf_returns:
  assumes "DUR \<le> since m"
  shows "(\<exists>r. s3perf since cli typ = Some r)
    \<and> (typ \<notin> {''write'', ''read''} \<longrightarrow> s3perf since cli typ = Some (NewResult ''0.00MB/s'' None))"
proof
  note ret = timed_returns [of DUR since 0 m, unfolded add_0, OF assms]
  show "\<exists>r. s3perf since cli typ = Some r"
  proof (cases "CreateMultipartUpload cli")
    case (Inr uid)
    with ret [of "read_body cli" 0] ret [of "upload_body cli uid" "([], 0)"] show ?thesis
      by (auto simp: s3perf_def split: sum.splits option.splits)
  qed (use ret [of "read_body cli" 0] in \<open>auto simp: s3perf_def split: sum.splits option.splits\<close>)
  have "digit 0 = CHR ''0''" by code_simp
  then have "fmt2 0 = ''0.00''" by (simp add: fmt2_def Itoa_def digits_of.simps)
  then show "typ \<notin> {''write'', ''read''} \<longrightarrow> s3perf since cli typ = Some (NewResult ''0.00MB/s'' None)"
    by (simp add: s3perf_def report_mb_def Let_def)
qed

theorem s3perf_returns_witness:
  "s3perf (\<lambda>k. int k * 15 * Second) demo_s3 ''list'' = Some (NewResult ''0.00MB/s'' None)"
  using s3perf_returns [of "\<lambda>k. int k * 15 * Second" 2 demo_s3 "''list''"]
  by (simp add: DUR_def Second_def)

end
