(* ===== verification/Latency.thy ===== *)
theory Latency
  imports GoJson
begin

text \<open>
  Two programs that measure how long it takes to reach a process: the lambda
  \<open>lambda/start-latency/cmd/main.go\<close> with its types in \<open>api/types.go\<close>, which reports the time
  since the caller's clock reading in its event, and \<open>netperf/cmd\<close>, a client that times one
  dial and a server that accepts one connection.
\<close>

section \<open>lambda/start-latency\<close>

record Event =
  CurTimeUsec :: int
  SrvHTTP :: string

record Result =
  ElapsedUsec :: int

text \<open>
  \<open>time.Since\<close> of a time without a monotonic reading is the difference of wall clocks, cut off
  at the ends of the range of \<open>Duration\<close>; \<open>Microseconds\<close> divides towards zero.
\<close>

definition saturate :: "int \<Rightarrow> int" where
  "saturate d = max (- (2 ^ 63)) (min (2 ^ 63 - 1) d)"

definition json_Result :: "Result \<Rightarrow> json" where
  "json_Result r = JObj [(''elapsed_usec'', JNum (Itoa (ElapsedUsec r)))]"

text \<open>
  \<open>now\<close> is the wall clock in nanoseconds. The result is an error, or the message and what was
  logged; a nil event is dereferenced.
\<close>

definition HandleRequest :: "int \<Rightarrow> Event option \<Rightarrow> go_stop + (string + string \<times> string option)" where
  "HandleRequest now event =
     (case event of
        None \<Rightarrow> Inl (Panic ''invalid memory address or nil pointer dereference'')
      | Some e \<Rightarrow>
          let invokeTime = 1000 * CurTimeUsec e;
              elapsed = saturate (now - invokeTime)
          in (case Marshal (json_Result \<lparr>ElapsedUsec = elapsed sdiv 1000\<rparr>) of
                Inl err \<Rightarrow> Inr (Inl (''Error marshal json: '' @ err))
              | Inr message \<Rightarrow> Inr (Inr (message, Printf0 message))))"

text \<open>With \<open>LOCAL_DEV\<close> set, \<open>main\<close> calls the handler itself; otherwise the platform does (\<open>None\<close>).\<close>

definition start_main :: "string \<Rightarrow> int \<Rightarrow> int \<Rightarrow> (go_stop + (string + string \<times> string option)) option" where
  "start_main local_dev now now' =
     (if local_dev = [] then None
      else Some (HandleRequest now' (Some \<lparr>CurTimeUsec = now div 1000, SrvHTTP = []\<rparr>)))"

text \<open>The text of a result: its key has nothing to escape.\<close>

lemma enc_Result: "enc (json_Result r) = ''{\"elapsed_usec\":'' @ Itoa (ElapsedUsec r) @ ''}''"
  by (simp add: json_Result_def member_def enc_string_plain plain_char_def dquote_def bsl_def)

lemma ascii_enc_Result: "list_all (\<lambda>c. of_char c < (0x80 :: nat)) (enc (json_Result r))"
  using unescaped_Itoa [of "ElapsedUsec r"] by (auto simp: enc_Result list_all_iff plain_char_def)

lemma saturate_id: "in_int64 d \<Longrightarrow> saturate d = d"
  by (simp add: saturate_def in_int64_def)

lemma saturate_range: "in_int64 (saturate d)"
  by (auto simp: saturate_def in_int64_def)

lemma sdiv_1000: "(d :: int) sdiv 1000 = (if 0 \<le> d then d div 1000 else - (- d div 1000))"
  by (simp add: signed_divide_int_def sgn_if)

lemma sdiv_1000_close: "\<bar>d - 1000 * (d sdiv 1000)\<bar> < 1000 \<and> \<bar>1000 * (d sdiv 1000)\<bar> \<le> \<bar>d\<bar>" for d :: int
proof (cases "0 \<le> d")
  case True
  then show ?thesis using minus_mult_div_eq_mod [of d 1000] pos_mod_bound [of 1000 d] pos_mod_sign [of 1000 d]
    by (simp add: sdiv_1000)
next
  case False
  then show ?thesis using minus_mult_div_eq_mod [of "- d" 1000] pos_mod_bound [of 1000 "- d"] pos_mod_sign [of 1000 "- d"]
    by (simp add: sdiv_1000)
qed

lemma in_int64_sdiv: "in_int64 d \<Longrightarrow> in_int64 (d sdiv 1000)"
  by (auto simp: sdiv_1000 in_int64_def)

section \<open>netperf\<close>

text \<open>\<open>net.DialTimeout\<close>: a dial that takes \<open>lat\<close> nanoseconds fails when it is not done by then.\<close>

definition DialTimeout :: "(string \<Rightarrow> string + int) \<Rightarrow> string \<Rightarrow> int \<Rightarrow> string + int" where
  "DialTimeout dial addr timeout =
     (case dial addr of
        Inl err \<Rightarrow> Inl err
      | Inr lat \<Rightarrow> if lat < timeout then Inr lat else Inl ''i/o timeout'')"

definition ADDR :: string where "ADDR = '':12345''"

definition netperf_client :: "(string \<Rightarrow> string + int) \<Rightarrow> string list \<Rightarrow> go_stop + int" where
  "netperf_client dial args =
     (if length args \<noteq> 2 then Inl (Fatal ''Wrong num args'')
      else (case DialTimeout dial (args ! 1 @ ADDR) 1000000 of
              Inl err \<Rightarrow> Inl (Fatal ''Dial addr'')
            | Inr lat \<Rightarrow> Inr lat))"

definition netperf_server :: "string option \<Rightarrow> string option \<Rightarrow> go_stop + unit" where
  "netperf_server listen_err accept_err =
     (if listen_err \<noteq> None then Inl (Fatal ''Listen on addr'')
      else if accept_err \<noteq> None then Inl (Fatal ''Accept err'')
      else Inr ())"

section \<open>Properties\<close>

text \<open>
  The start-latency handler answers every event, whatever its clock reading, and its
  message can be used as the format of its own log line. The number in the message can be
  read back as an \<open>int64\<close>. It is the time from the event's reading to now in microseconds,
  cut towards zero, so late by less than one, as long as the two are within 292 years of
  each other.
\<close>

theorem start_latency_report:
  "\<exists>v. HandleRequest now (Some e)
       = Inr (Inr (''{\"elapsed_usec\":'' @ Itoa v @ ''}'', Some (''{\"elapsed_usec\":'' @ Itoa v @ ''}'')))
     \<and> Atoi (Itoa v) = Some v
     \<and> (in_int64 (now - 1000 * CurTimeUsec e) \<longrightarrow> \<bar>now - 1000 * CurTimeUsec e - 1000 * v\<bar> < 1000
         \<and> \<bar>1000 * v\<bar> \<le> \<bar>now - 1000 * CurTimeUsec e\<bar>)"
proof (intro exI conjI impI)
  let ?d = "now - 1000 * CurTimeUsec e"
  let ?v = "saturate ?d sdiv 1000"
  show "HandleRequest now (Some e)
       = Inr (Inr (''{\"elapsed_usec\":'' @ Itoa ?v @ ''}'', Some (''{\"elapsed_usec\":'' @ Itoa ?v @ ''}'')))"
    by (simp add: HandleRequest_def Let_def Marshal_def enc_Result Printf0_def Itoa_no_percent)
  show "Atoi (Itoa ?v) = Some ?v"
    by (intro Atoi_Itoa in_int64_sdiv saturate_range)
  assume "in_int64 ?d"
  then have v: "?v = ?d sdiv 1000" by (simp add: saturate_id)
  show "\<bar>?d - 1000 * ?v\<bar> < 1000" "\<bar>1000 * ?v\<bar> \<le> \<bar>?d\<bar>"
    using sdiv_1000_close [of ?d] by (simp_all only: v)
qed

theorem start_latency_report_witness:
  "\<exists>v. HandleRequest 1700000000002500999 (Some \<lparr>CurTimeUsec = 1700000000000000, SrvHTTP = []\<rparr>)
       = Inr (Inr (''{\"elapsed_usec\":'' @ Itoa v @ ''}'', Some (''{\"elapsed_usec\":'' @ Itoa v @ ''}'')))
     \<and> v = 2500"
proof -
  have "in_int64 (1700000000002500999 - 1000 * 1700000000000000)" by (simp add: in_int64_def)
  with start_latency_report [of 1700000000002500999 "\<lparr>CurTimeUsec = 1700000000000000, SrvHTTP = []\<rparr>"]
  show ?thesis by fastforce
qed

end
