(* ===== verification/Invoke.thy ===== *)
theory Invoke
  imports Latency
begin

text \<open>
  \<open>lambda/start-latency/lambda_test.go\<close>: the test that invokes the start-latency lambda through
  AWS and reads the latency from its answer. The platform is a parameter, a function from
  the text of a request to what \<open>Invoke\<close> returns.
\<close>

section \<open>Decoding into structs\<close>

definition json_Event :: "Event \<Rightarrow> json" where
  "json_Event ev = JObj [(''cur_time_micro'', JNum (Itoa (CurTimeUsec ev))), (''srv_http'', JStr (SrvHTTP ev))]"

text \<open>
  Keys are compared without regard to case, which for the letters of a key takes in the two
  letters outside ASCII that fold to one of them, the long s and the Kelvin sign.
\<close>

definition lower :: "char \<Rightarrow> char" where
  "lower c = (let k = of_char c :: nat in if 65 \<le> k \<and> k \<le> 90 then char_of (k + 32) else c)"

function fold_key :: "string \<Rightarrow> string" where
  "fold_key [] = []"
| "fold_key (c # cs) =
     (if c = CHR 0xC5 \<and> take 1 cs = [CHR 0xBF] then CHR ''s'' # fold_key (drop 1 cs)
      else if c = CHR 0xE2 \<and> take 2 cs = [CHR 0x84, CHR 0xAA] then CHR ''k'' # fold_key (drop 2 cs)
      else lower c # fold_key cs)"
  by pat_completeness auto
termination by (relation "measure length") auto

text \<open>
  \<open>Unmarshal\<close> into a \<open>Result\<close>: null changes nothing; an object sets the field from each member
  with its key, the last one winning; a member of the wrong type is remembered as an error
  while the others are still read; any other value is an error. \<open>None\<close> is an error.
\<close>

fun set_elapsed :: "(string \<times> json) list \<Rightarrow> Result option \<Rightarrow> Result option" where
  "set_elapsed [] r = r"
| "set_elapsed ((k, v) # kvs) r =
     (if fold_key k \<noteq> ''elapsed_usec'' then set_elapsed kvs r
      else (case v of
              JNull \<Rightarrow> set_elapsed kvs r
            | JNum s \<Rightarrow> (case Atoi s of
                          None \<Rightarrow> set_elapsed kvs None
                        | Some n \<Rightarrow> set_elapsed kvs (map_option (\<lambda>_. \<lparr>ElapsedUsec = n\<rparr>) r))
            | _ \<Rightarrow> set_elapsed kvs None))"

definition unmarshal_Result :: "json \<Rightarrow> Result option" where
  "unmarshal_Result v =
     (case v of
        JNull \<Rightarrow> Some \<lparr>ElapsedUsec = 0\<rparr>
      | JObj kvs \<Rightarrow> set_elapsed kvs (Some \<lparr>ElapsedUsec = 0\<rparr>)
      | _ \<Rightarrow> None)"

text \<open>The same for the fields of an \<open>Event\<close>, one member at a time.\<close>

definition set_field :: "string \<times> json \<Rightarrow> Event option \<Rightarrow> Event option" where
  "set_field kv r =
     (if fold_key (fst kv) = ''cur_time_micro'' then
        (case snd kv of
           JNull \<Rightarrow> r
         | JNum s \<Rightarrow> (case Atoi s of None \<Rightarrow> None | Some n \<Rightarrow> map_option (CurTimeUsec_update (\<lambda>_. n)) r)
         | _ \<Rightarrow> None)
      else if fold_key (fst kv) = ''srv_http'' then
        (case snd kv of
           JNull \<Rightarrow> r
         | JStr s \<Rightarrow> map_option (SrvHTTP_update (\<lambda>_. s)) r
         | _ \<Rightarrow> None)
      else r)"

definition unmarshal_Event :: "json \<Rightarrow> Event option" where
  "unmarshal_Event v =
     (case v of
        JObj kvs \<Rightarrow> fold set_field kvs (Some \<lparr>CurTimeUsec = 0, SrvHTTP = []\<rparr>)
      | _ \<Rightarrow> None)"

section \<open>The test\<close>

text \<open>What \<open>Invoke\<close> returns: an error, or a status code that may be nil and a payload.\<close>

type_synonym invoke_output = "string + int option \<times> string"

text \<open>\<open>now\<close> is the clock in nanoseconds. A result is the latency that is logged.\<close>

definition TestLambdaLatency :: "string option \<Rightarrow> (string \<Rightarrow> invoke_output) \<Rightarrow> int \<Rightarrow> go_stop + int" where
  "TestLambdaLatency sess_err invoke now =
     (case sess_err of
        Some err \<Rightarrow> Inl (Panic err)
      | None \<Rightarrow>
          (case Marshal (json_Event \<lparr>CurTimeUsec = now div 1000, SrvHTTP = ''x.x.x.x''\<rparr>) of
             Inl err \<Rightarrow> Inl (Fatal (''Error marshalling lambda request: '' @ err))
           | Inr payload \<Rightarrow>
               (case invoke payload of
                  Inl err \<Rightarrow> Inl (Fatal (''Error invoking lambda: '' @ err))
                | Inr (None, _) \<Rightarrow> Inl (Panic ''invalid memory address or nil pointer dereference'')
                | Inr (Some status, result) \<Rightarrow>
                    if status \<noteq> 200 then Inl (Fatal ''Bad return status'')
                    else (case Option.bind (json_parse result) unmarshal_Result of
                            None \<Rightarrow> Inl (Fatal ''Error marshalling lambda request'')
                          | Some res \<Rightarrow> Inr (ElapsedUsec res)))))"

section \<open>The platform\<close>

text \<open>
  The documented behaviour of the platform: it decodes the request into the handler's event;
  a synchronous invocation has status 200 whether or not the function has failed. The payload
  is the JSON encoding of what the handler has returned, here a string, or an object that
  describes the error. The handler starts at \<open>start\<close>.
\<close>

definition error_payload :: "json \<Rightarrow> bool" where
  "error_payload v \<longleftrightarrow> (\<exists>msg rest. v = JObj ((''errorMessage'', JStr msg) # rest)
     \<and> fst ` set rest \<subseteq> {''errorType'', ''stackTrace'', ''requestId''})"

definition decode_event :: "string \<Rightarrow> Event option" where
  "decode_event payload = Option.bind (json_parse payload) unmarshal_Event"

definition platform_runs :: "(string \<Rightarrow> invoke_output) \<Rightarrow> int \<Rightarrow> bool" where
  "platform_runs invoke start \<longleftrightarrow>
     (\<forall>payload ev message logged.
        decode_event payload = Some ev \<longrightarrow> HandleRequest start (Some ev) = Inr (Inr (message, logged)) \<longrightarrow>
        (\<exists>result. invoke payload = Inr (Some 200, result) \<and> json_parse result = Some (JStr message)))"

definition platform_fails :: "(string \<Rightarrow> invoke_output) \<Rightarrow> bool" where
  "platform_fails invoke \<longleftrightarrow>
     (\<forall>payload. \<exists>v result. error_payload v \<and> invoke payload = Inr (Some 200, result) \<and> json_parse result = Some v)"

lemma set_elapsed_other:
  "fst ` set kvs \<subseteq> {''errorType'', ''stackTrace'', ''requestId''} \<Longrightarrow> set_elapsed kvs r = r"
  by (induction kvs r rule: set_elapsed.induct) (auto simp: lower_def Let_def)

lemma unmarshal_error_payload: "error_payload v \<Longrightarrow> unmarshal_Result v = Some \<lparr>ElapsedUsec = 0\<rparr>"
  by (auto simp: error_payload_def unmarshal_Result_def lower_def Let_def set_elapsed_other)

text \<open>The lambda gets the event that was sent, and its message decodes to its result.\<close>

lemma decode_sent:
  assumes "in_int64 (CurTimeUsec ev)" and "clean (SrvHTTP ev) = SrvHTTP ev"
  shows "decode_event (enc (json_Event ev)) = Some ev"
proof -
  have "json_parse (enc (json_Event ev)) = Some (clean_json (json_Event ev))"
    by (rule parse_enc) (auto simp: json_Event_def maxNestingDepth_def)
  moreover have "unmarshal_Event (clean_json (json_Event ev)) = Some ev"
    using assms by (cases ev) (simp add: json_Event_def clean_ascii unmarshal_Event_def set_field_def
        lower_def Let_def Atoi_Itoa)
  ultimately show ?thesis by (simp add: decode_event_def)
qed

lemma decode_message:
  assumes "in_int64 (ElapsedUsec r)"
  shows "Option.bind (json_parse (enc (json_Result r))) unmarshal_Result = Some r"
proof -
  have "json_parse (enc (json_Result r)) = Some (clean_json (json_Result r))"
    by (rule parse_enc) (auto simp: json_Result_def maxNestingDepth_def)
  with assms show ?thesis
    by (cases r) (simp add: json_Result_def clean_ascii unmarshal_Result_def lower_def Let_def Atoi_Itoa)
qed

section \<open>Properties\<close>

text \<open>
  C22. The test has its outcomes the wrong way round. When the lambda runs, on the very event
  that the test has sent, its answer is the JSON encoding of a string that holds JSON: the
  string decodes to the latency, correct to the microsecond of each clock reading, but the answer
  does not decode into a result, so the test ends with a fatal error, whatever the clocks
  are. When the lambda fails, the status is 200 all the same and the error object decodes to
  an empty result, so the test passes and reports a latency of zero.
\<close>

theorem lambda_test_inverted:
  assumes "in_int64 now"
  shows "(platform_runs invoke start \<longrightarrow>
      TestLambdaLatency None invoke now = Inl (Fatal ''Error marshalling lambda request'')
      \<and> (\<exists>result message r.
          invoke (enc (json_Event \<lparr>CurTimeUsec = now div 1000, SrvHTTP = ''x.x.x.x''\<rparr>)) = Inr (Some 200, result)
          \<and> json_parse result = Some (JStr message)
          \<and> Option.bind (json_parse message) unmarshal_Result = Some r
          \<and> (\<bar>start - now\<bar> < 2 ^ 62 \<longrightarrow> \<bar>start - now - 1000 * ElapsedUsec r\<bar> < 2000)))
   \<and> (platform_fails invoke \<longrightarrow> TestLambdaLatency None invoke now = Inr 0)"
proof (intro conjI impI)
  let ?ev = "\<lparr>CurTimeUsec = now div 1000, SrvHTTP = ''x.x.x.x''\<rparr>"
  let ?d = "start - 1000 * (now div 1000)"
  let ?r = "\<lparr>ElapsedUsec = saturate ?d sdiv 1000\<rparr>"
  assume runs: "platform_runs invoke start"
  have "in_int64 (now div 1000)" using assms by (auto simp: in_int64_def)
  then have "decode_event (enc (json_Event ?ev)) = Some ?ev"
    by (intro decode_sent) (simp_all add: clean_ascii)
  moreover have "HandleRequest start (Some ?ev) = Inr (Inr (enc (json_Result ?r), Printf0 (enc (json_Result ?r))))"
    by (simp add: HandleRequest_def Let_def Marshal_def)
  ultimately obtain result where result: "invoke (enc (json_Event ?ev)) = Inr (Some 200, result)"
    "json_parse result = Some (JStr (enc (json_Result ?r)))"
    using runs unfolding platform_runs_def by blast
  then show "TestLambdaLatency None invoke now = Inl (Fatal ''Error marshalling lambda request'')"
    by (simp add: TestLambdaLatency_def Marshal_def unmarshal_Result_def)
  have "Option.bind (json_parse (enc (json_Result ?r))) unmarshal_Result = Some ?r"
    using in_int64_sdiv saturate_range by (intro decode_message) simp
  moreover have "\<bar>start - now - 1000 * ElapsedUsec ?r\<bar> < 2000" if "\<bar>start - now\<bar> < 2 ^ 62"
  proof -
    have m: "0 \<le> now - 1000 * (now div 1000)" "now - 1000 * (now div 1000) < 1000"
      using minus_mult_div_eq_mod [of now 1000] by simp_all
    with that have "in_int64 ?d" by (simp add: in_int64_def abs_less_iff)
    with sdiv_1000_close [of ?d] m show ?thesis by (simp add: saturate_id abs_less_iff)
  qed
  ultimately show "\<exists>result message r. invoke (enc (json_Event ?ev)) = Inr (Some 200, result)
      \<and> json_parse result = Some (JStr message) \<and> Option.bind (json_parse message) unmarshal_Result = Some r
      \<and> (\<bar>start - now\<bar> < 2 ^ 62 \<longrightarrow> \<bar>start - now - 1000 * ElapsedUsec r\<bar> < 2000)"
    using result by blast
next
  assume "platform_fails invoke"
  then obtain v result where "error_payload v" "json_parse result = Some v"
    "invoke (enc (json_Event \<lparr>CurTimeUsec = now div 1000, SrvHTTP = ''x.x.x.x''\<rparr>)) = Inr (Some 200, result)"
    unfolding platform_fails_def by blast
  then show "TestLambdaLatency None invoke now = Inr 0"
    by (simp add: TestLambdaLatency_def Marshal_def unmarshal_error_payload)
qed

text \<open>A platform that runs the lambda, and one on which it times out.\<close>

definition demo_invoke :: "int \<Rightarrow> string \<Rightarrow> invoke_output" where
  "demo_invoke start payload =
     (case HandleRequest start (decode_event payload) of
        Inr (Inr (message, logged)) \<Rightarrow> Inr (Some 200, enc (JStr message))
      | _ \<Rightarrow> Inl ''failed'')"

definition demo_timeout :: "string \<Rightarrow> invoke_output" where
  "demo_timeout payload = Inr (Some 200, enc (JObj [(''errorMessage'', JStr ''Task timed out'')]))"

lemma demo_runs: "platform_runs (demo_invoke start) start"
proof -
  have "clean message = message" if "HandleRequest start (Some ev) = Inr (Inr (message, logged))" for ev message logged
    using that clean_ascii [OF ascii_enc_Result] by (auto simp: HandleRequest_def Let_def Marshal_def)
  then show ?thesis
    by (auto simp: platform_runs_def demo_invoke_def parse_enc maxNestingDepth_def simp del: enc.simps)
qed

lemma demo_fails: "platform_fails demo_timeout"
proof -
  have "json_parse (enc (JObj [(''errorMessage'', JStr ''Task timed out'')]))
      = Some (JObj [(''errorMessage'', JStr ''Task timed out'')])"
    by (simp add: parse_enc maxNestingDepth_def clean_ascii del: enc.simps)
  then show ?thesis by (auto simp del: enc.simps simp: platform_fails_def demo_timeout_def error_payload_def)
qed

theorem lambda_test_inverted_witness:
  "TestLambdaLatency None (demo_invoke 1700000000002500000) 1700000000000000000
     = Inl (Fatal ''Error marshalling lambda request'')
   \<and> TestLambdaLatency None demo_timeout 1700000000000000000 = Inr 0"
proof -
  have now: "in_int64 1700000000000000000" by (simp add: in_int64_def)
  from lambda_test_inverted [OF now] demo_runs [of 1700000000002500000] demo_fails show ?thesis by blast
qed

end
