(* ===== verification/TlsCopies.thy ===== *)
theory TlsCopies
  imports Rpc
begin

text \<open>
  \<open>tls/frame/frame.go\<close> and \<open>tls/rpc/rpc.go\<close>: the TLS module's own copies of the framing and the
  RPC layer, which its programs do not import yet. They are translated on their own,
  over the connections and error values of \<open>GoIO\<close>, \<open>Frame\<close> and \<open>Rpc\<close>, and shown to be the same functions as
  the originals, so that what is proved of those holds of the copies, and a client built on
  one talks to a server built on the other.
\<close>

section \<open>tls/frame\<close>

definition ReadUint32 :: "conn \<Rightarrow> (frame_err + u32) \<times> conn" where
  "ReadUint32 rd =
     (case ReadFull rd (mkbuf 4) of
        (n, Some err, rd', bs) \<Rightarrow> (Inl (ErrReadUint32 err), rd')
      | (n, None, rd', bs) \<Rightarrow> (Inr (Uint32 bs), rd'))"

definition WriteUint32 :: "conn \<Rightarrow> u32 \<Rightarrow> frame_err option \<times> conn" where
  "WriteUint32 wr i =
     (case Write wr (PutUint32 i) of
        (n, Some err, wr') \<Rightarrow> (Some (ErrWriteUint32 err), wr')
      | (n, None, wr') \<Rightarrow> (None, wr'))"

definition ReadFrameInto :: "conn \<Rightarrow> byte list \<Rightarrow> (frame_err + nat) \<times> conn \<times> byte list" where
  "ReadFrameInto rd b =
     (case ReadUint32 rd of
        (Inl err, rd1) \<Rightarrow> (Inl (ErrReadNbyte err), rd1, b)
      | (Inr nbyte, rd1) \<Rightarrow>
          if unat nbyte > length b then (Inl (ErrBufTooShort (length b) (unat nbyte)), rd1, b)
          else
            (case ReadFull rd1 (take (unat nbyte) b) of
               (n, err, rd2, b1) \<Rightarrow>
                 let b2 = overwrite b1 b in
                 if n \<noteq> unat nbyte then (Inl (ErrReadFullShort n (unat nbyte)), rd2, b2)
                 else (case err of
                         Some e \<Rightarrow> (Inl (ErrReadFull e), rd2, b2)
                       | None \<Rightarrow> (Inr (unat nbyte), rd2, b2))))"

definition WriteFrame :: "conn \<Rightarrow> byte list \<Rightarrow> frame_err option \<times> conn" where
  "WriteFrame wr b =
     (let nbyte = (of_nat (length b) :: u32) in
      case WriteUint32 wr nbyte of
        (Some err, wr1) \<Rightarrow> (Some (ErrWriteNbyte err), wr1)
      | (None, wr1) \<Rightarrow>
          (case Write wr1 b of
             (n, Some err, wr2) \<Rightarrow> (Some (ErrWriteBuf err), wr2)
           | (n, None, wr2) \<Rightarrow>
               if n < length b then (Some (ErrWriteShort (unat nbyte) (length b)), wr2)
               else (None, wr2)))"

section \<open>tls/rpc\<close>

definition InformNRPC :: "conn \<Rightarrow> int \<Rightarrow> frame_err option \<times> conn" where
  "InformNRPC conn nrpc = WriteUint32 conn (of_int nrpc)"

definition GetNRPC :: "conn \<Rightarrow> (frame_err + int) \<times> conn" where
  "GetNRPC conn =
     (case ReadUint32 conn of
        (Inl err, conn') \<Rightarrow> (Inl err, conn')
      | (Inr nrpc, conn') \<Rightarrow> (Inr (uint nrpc), conn'))"

definition ClientRPC :: "byte list \<Rightarrow> conn \<Rightarrow> byte list \<Rightarrow> rpc_err option \<times> conn \<times> byte list" where
  "ClientRPC addr conn b =
     (case WriteFrame conn addr of
        (Some err, c1) \<Rightarrow> (Some (FrameErr err), c1, b)
      | (None, c1) \<Rightarrow>
     (case WriteFrame c1 b of
        (Some err, c2) \<Rightarrow> (Some (FrameErr err), c2, b)
      | (None, c2) \<Rightarrow>
     (case ReadFrameInto c2 b of
        (Inl err, c3, b') \<Rightarrow> (Some (FrameErr err), c3, b')
      | (Inr nbyte, c3, b') \<Rightarrow>
          if nbyte \<noteq> length b then (Some (ErrWrongNumBytes nbyte (length b)), c3, b')
          else (None, c3, b'))))"

definition ProxyRPC ::
  "byte list \<Rightarrow> conn \<Rightarrow> conn \<Rightarrow> byte list \<Rightarrow> rpc_err option \<times> byte list \<times> conn \<times> conn \<times> byte list" where
  "ProxyRPC addr cliConn srvConn b =
     (case ReadFrameInto cliConn addr of
        (Inl err, cli1, addr1) \<Rightarrow> (Some (FrameErr err), addr1, cli1, srvConn, b)
      | (Inr addrNByte, cli1, addr1) \<Rightarrow>
     (case ReadFrameInto cli1 b of
        (Inl err, cli2, b1) \<Rightarrow> (Some (FrameErr err), addr1, cli2, srvConn, b1)
      | (Inr nbyte, cli2, b1) \<Rightarrow>
     (case ClientRPC (take addrNByte addr1) srvConn (take nbyte b1) of
        (Some err, srv1, b2) \<Rightarrow> (Some err, addr1, cli2, srv1, overwrite b2 b1)
      | (None, srv1, b2) \<Rightarrow>
     (case WriteFrame cli2 b2 of
        (Some err, cli3) \<Rightarrow> (Some (FrameErr err), addr1, cli3, srv1, overwrite b2 b1)
      | (None, cli3) \<Rightarrow> (None, addr1, cli3, srv1, overwrite b2 b1)))))"

definition ServeRPC ::
  "byte list \<Rightarrow> conn \<Rightarrow> byte list \<Rightarrow> (rpc_err + nat \<times> nat) \<times> byte list \<times> conn \<times> byte list" where
  "ServeRPC addr conn b =
     (case ReadFrameInto conn addr of
        (Inl err, c1, addr1) \<Rightarrow> (Inl (FrameErr err), addr1, c1, b)
      | (Inr addrNByte, c1, addr1) \<Rightarrow>
     (case ReadFrameInto c1 b of
        (Inl err, c2, b1) \<Rightarrow> (Inl (FrameErr err), addr1, c2, b1)
      | (Inr nbyte, c2, b1) \<Rightarrow>
     (case WriteFrame c2 (take nbyte b1) of
        (Some err, c3) \<Rightarrow> (Inl (FrameErr err), addr1, c3, b1)
      | (None, c3) \<Rightarrow> (Inr (addrNByte, nbyte), addr1, c3, b1))))"

section \<open>The copies are the originals\<close>

lemma frame_copies:
  "TlsCopies.ReadUint32 = Frame.ReadUint32" "TlsCopies.WriteUint32 = Frame.WriteUint32"
  "TlsCopies.ReadFrameInto = Frame.ReadFrameInto" "TlsCopies.WriteFrame = Frame.WriteFrame"
proof -
  show r: "TlsCopies.ReadUint32 = Frame.ReadUint32"
    by (intro ext) (simp only: ReadUint32_def Frame.ReadUint32_def)
  show w: "TlsCopies.WriteUint32 = Frame.WriteUint32"
    by (intro ext) (simp only: WriteUint32_def Frame.WriteUint32_def)
  show "TlsCopies.ReadFrameInto = Frame.ReadFrameInto"
    by (intro ext) (simp only: ReadFrameInto_def Frame.ReadFrameInto_def r)
  show "TlsCopies.WriteFrame = Frame.WriteFrame"
    by (intro ext) (simp only: WriteFrame_def Frame.WriteFrame_def w)
qed

lemma rpc_copies:
  "TlsCopies.InformNRPC = Rpc.InformNRPC" "TlsCopies.GetNRPC = Rpc.GetNRPC" "TlsCopies.ServeRPC = Rpc.ServeRPC"
  "TlsCopies.ClientRPC = Rpc.ClientRPC" "TlsCopies.ProxyRPC = Rpc.ProxyRPC"
proof -
  show "TlsCopies.InformNRPC = Rpc.InformNRPC"
    by (intro ext) (simp only: InformNRPC_def Rpc.InformNRPC_def frame_copies)
  show "TlsCopies.GetNRPC = Rpc.GetNRPC"
    by (intro ext) (simp only: GetNRPC_def Rpc.GetNRPC_def frame_copies)
  show "TlsCopies.ServeRPC = Rpc.ServeRPC"
    by (intro ext) (simp only: ServeRPC_def Rpc.ServeRPC_def frame_copies)
  show c: "TlsCopies.ClientRPC = Rpc.ClientRPC"
    by (intro ext) (simp only: ClientRPC_def Rpc.ClientRPC_def frame_copies)
  show "TlsCopies.ProxyRPC = Rpc.ProxyRPC"
    by (intro ext) (simp only: ProxyRPC_def Rpc.ProxyRPC_def frame_copies c)
qed

text \<open>So the copies keep the contract of a framed link, also across the two modules.\<close>

interpretation tls: framed_link TlsCopies.WriteFrame TlsCopies.ReadFrameInto enc fits_u32
  unfolding frame_copies by (rule fr.framed_link_axioms)

interpretation tls_mixed: framed_link TlsCopies.WriteFrame Frame.ReadFrameInto enc fits_u32
  unfolding frame_copies by (rule fr.framed_link_axioms)

end
