(* ===== verification/TlsDial.thy ===== *)
theory TlsDial
  imports GoTime
begin

text \<open>
  \<open>tls/cmd/client/main.go\<close>: a client that measures the average latency of TLS dials. It starts
  one goroutine per dial; the goroutines share the variable \<open>err\<close> of \<open>main\<close>, report to a wait
  group, and only then send their latency on an unbuffered channel. What a dial and its
  handshake return, and how long they take, are parameters.
\<close>

section \<open>Start-up\<close>

text \<open>The socket of the pipe proxy, from this module's copy of \<open>pipe/pipe.go\<close>.\<close>

definition PATH :: string where
  "PATH = ''/tmp/pipeproxy''"

record dial_conf =
  dc_srv :: string
  dc_ndial :: int
  dc_sleep :: int
  dc_type :: string

definition tls_main :: "string option \<Rightarrow> string list \<Rightarrow> go_stop + dial_conf" where
  "tls_main cert_err args =
     (if length args \<noteq> 5 then Inl (Fatal ''Usage'')
      else if cert_err \<noteq> None then Inl (Fatal ''Err read cert file'')
      else (case Atoi (args ! 2) of
              None \<Rightarrow> Inl (Fatal ''Can't parse ndial'')
            | Some ndial \<Rightarrow>
                (case ParseDuration (args ! 3) of
                   None \<Rightarrow> Inl (Fatal ''Can't parse sleep dur'')
                 | Some sl \<Rightarrow>
                     if ndial < 0 then Inl (Panic ''sync: negative WaitGroup counter'')
                     else Inr \<lparr>dc_srv = args ! 1, dc_ndial = ndial, dc_sleep = sl, dc_type = args ! 4\<rparr>)))"

text \<open>The network and address that a goroutine dials; \<open>None\<close> is an unknown proxy type.\<close>

definition dial_target :: "string \<Rightarrow> string \<Rightarrow> (string \<times> string) option" where
  "dial_target srv typ =
     (if typ = ''noproxy'' then Some (''tcp'', srv)
      else if typ = ''netproxy'' then Some (''tcp'', srv)
      else if typ = ''pipeproxy'' then Some (''unix'', PATH)
      else None)"

section \<open>The goroutines\<close>

text \<open>
  A dialer: not started, about to dial, dialled (and whether it holds a connection), past its
  test of \<open>err\<close>, past its handshake, sending its latency, received by main.
\<close>

datatype dpc = DNew | DDial | DAssigned bool | DChecked bool | DShaken | DSending | DEnd

text \<open>Main: in its starting loop, in \<open>wg.Wait\<close>, receiving with a sum so far, finished with the average.\<close>

datatype mpc = MSpawn nat | MWait | MRecv nat int | MAvg int

record dsys =
  derr :: "string option"
  dp :: "nat \<Rightarrow> dpc"
  wgc :: int
  mp :: mpc
  dstop :: "go_stop option"

record dialer =
  target :: "(string \<times> string) option"
  dial :: "nat \<Rightarrow> string option"
  handshake :: "nat \<Rightarrow> string option"
  latency :: "nat \<Rightarrow> int"

definition d_start :: "nat \<Rightarrow> dsys \<Rightarrow> bool" where
  "d_start n s \<longleftrightarrow> s = \<lparr>derr = None, dp = (\<lambda>_. DNew), wgc = int n, mp = MSpawn 0, dstop = None\<rparr>"

inductive d_step :: "nat \<Rightarrow> dialer \<Rightarrow> dsys \<Rightarrow> dsys \<Rightarrow> bool" for n :: nat and D :: dialer where
  d_spawn: "dstop s = None \<Longrightarrow> mp s = MSpawn i \<Longrightarrow> i < n \<Longrightarrow>
     d_step n D s (s\<lparr>dp := (dp s)(i := DDial), mp := MSpawn (Suc i)\<rparr>)"
| d_spawned: "dstop s = None \<Longrightarrow> mp s = MSpawn n \<Longrightarrow> d_step n D s (s\<lparr>mp := MWait\<rparr>)"
| d_unknown: "dstop s = None \<Longrightarrow> i < n \<Longrightarrow> dp s i = DDial \<Longrightarrow> target D = None \<Longrightarrow>
     d_step n D s (s\<lparr>dstop := Some (Fatal ''Unknown proxy type'')\<rparr>)"
| d_dial: "dstop s = None \<Longrightarrow> i < n \<Longrightarrow> dp s i = DDial \<Longrightarrow> target D \<noteq> None \<Longrightarrow>
     d_step n D s (s\<lparr>derr := dial D i, dp := (dp s)(i := DAssigned (dial D i = None))\<rparr>)"
| d_fatal: "dstop s = None \<Longrightarrow> i < n \<Longrightarrow> dp s i = DAssigned ok \<Longrightarrow> derr s = Some e \<Longrightarrow>
     d_step n D s (s\<lparr>dstop := Some (Fatal e)\<rparr>)"
| d_check: "dstop s = None \<Longrightarrow> i < n \<Longrightarrow> dp s i = DAssigned ok \<Longrightarrow> derr s = None \<Longrightarrow>
     d_step n D s (s\<lparr>dp := (dp s)(i := DChecked ok)\<rparr>)"
| d_nil: "dstop s = None \<Longrightarrow> i < n \<Longrightarrow> dp s i = DChecked False \<Longrightarrow>
     d_step n D s (s\<lparr>dstop := Some (Panic ''nil pointer dereference'')\<rparr>)"
| d_shake: "dstop s = None \<Longrightarrow> i < n \<Longrightarrow> dp s i = DChecked True \<Longrightarrow> handshake D i = None \<Longrightarrow>
     d_step n D s (s\<lparr>dp := (dp s)(i := DShaken)\<rparr>)"
| d_shake_fatal: "dstop s = None \<Longrightarrow> i < n \<Longrightarrow> dp s i = DChecked True \<Longrightarrow> handshake D i = Some e \<Longrightarrow>
     d_step n D s (s\<lparr>dstop := Some (Fatal e)\<rparr>)"
| d_done: "dstop s = None \<Longrightarrow> i < n \<Longrightarrow> dp s i = DShaken \<Longrightarrow>
     d_step n D s (s\<lparr>wgc := wgc s - 1, dp := (dp s)(i := DSending)\<rparr>)"
| m_wait: "dstop s = None \<Longrightarrow> mp s = MWait \<Longrightarrow> wgc s = 0 \<Longrightarrow> d_step n D s (s\<lparr>mp := MRecv 0 0\<rparr>)"
| m_recv: "dstop s = None \<Longrightarrow> mp s = MRecv k d \<Longrightarrow> k < n \<Longrightarrow> i < n \<Longrightarrow> dp s i = DSending \<Longrightarrow>
     d_step n D s (s\<lparr>dp := (dp s)(i := DEnd), mp := MRecv (Suc k) (d + latency D i)\<rparr>)"
| m_average: "dstop s = None \<Longrightarrow> mp s = MRecv n d \<Longrightarrow> 0 < n \<Longrightarrow>
     d_step n D s (s\<lparr>mp := MAvg (d sdiv int n)\<rparr>)"
| m_divide_by_zero: "dstop s = None \<Longrightarrow> mp s = MRecv n d \<Longrightarrow> n = 0 \<Longrightarrow>
     d_step n D s (s\<lparr>dstop := Some (Panic ''integer divide by zero'')\<rparr>)"

section \<open>The invariant when every dial succeeds\<close>

definition all_dial :: "nat \<Rightarrow> dialer \<Rightarrow> bool" where
  "all_dial n D \<longleftrightarrow> 0 < n \<and> target D \<noteq> None \<and> (\<forall>i<n. dial D i = None \<and> handshake D i = None)"

definition before_done :: "dpc \<Rightarrow> bool" where
  "before_done p \<longleftrightarrow> p \<noteq> DSending \<and> p \<noteq> DEnd"

definition received :: "nat \<Rightarrow> dialer \<Rightarrow> (nat \<Rightarrow> dpc) \<Rightarrow> int" where
  "received n D p = (\<Sum>i<n. if p i = DEnd then latency D i else 0)"

text \<open>What main's position says of the dialers.\<close>

fun main_ok :: "nat \<Rightarrow> dialer \<Rightarrow> mpc \<Rightarrow> (nat \<Rightarrow> dpc) \<Rightarrow> bool" where
  "main_ok n D (MSpawn j) p \<longleftrightarrow> j \<le> n \<and> (\<forall>i<n. p i = DNew \<longleftrightarrow> j \<le> i) \<and> (\<forall>i<n. p i \<noteq> DEnd)"
| "main_ok n D MWait p \<longleftrightarrow> (\<forall>i<n. p i \<noteq> DNew \<and> p i \<noteq> DEnd)"
| "main_ok n D (MRecv k d) p \<longleftrightarrow> (\<forall>i<n. \<not> before_done (p i)) \<and> int k = tally (\<lambda>q. q = DEnd) p n \<and> d = received n D p"
| "main_ok n D (MAvg a) p \<longleftrightarrow> (\<forall>i<n. p i = DEnd) \<and> a = (\<Sum>i<n. latency D i) sdiv int n"

definition d_inv :: "nat \<Rightarrow> dialer \<Rightarrow> dsys \<Rightarrow> bool" where
  "d_inv n D s \<longleftrightarrow> all_dial n D \<and> derr s = None \<and> dstop s = None
     \<and> (\<forall>i<n. dp s i \<noteq> DAssigned False \<and> dp s i \<noteq> DChecked False)
     \<and> wgc s = tally before_done (dp s) n \<and> main_ok n D (mp s) (dp s)"

lemma received_upd: "i < n \<Longrightarrow> p i \<noteq> DEnd \<Longrightarrow> received n D (p(i := DEnd)) = received n D p + latency D i"
proof (induction n)
  case (Suc n)
  show ?case
  proof (cases "i = n")
    case True
    then have "received n D (p(i := DEnd)) = received n D p"
      unfolding received_def by (intro sum.cong) auto
    with True Suc.prems show ?thesis by (simp add: received_def)
  next
    case False
    with Suc show ?thesis by (simp add: received_def)
  qed
qed simp

lemma main_ok_upd:
  assumes "main_ok n D m p" and "p i \<noteq> DNew" and "before_done (p i)" and "q \<noteq> DNew" and "q \<noteq> DEnd" and "i < n"
  shows "main_ok n D m (p(i := q))"
proof (cases m)
  case (MSpawn j)
  with assms show ?thesis by auto
qed (use assms in \<open>auto simp: before_done_def\<close>)

lemma d_inv_start: "d_start n s \<Longrightarrow> all_dial n D \<Longrightarrow> d_inv n D s"
  by (simp add: d_start_def d_inv_def before_done_def)

lemma d_inv_dialer:
  assumes "d_inv n D s" and "i < n" and "dp s i \<noteq> DNew" and "before_done (dp s i)" and "q \<noteq> DNew" and "before_done q"
    and "q \<noteq> DAssigned False" and "q \<noteq> DChecked False"
    and "derr t = None" and "dstop t = None" and "wgc t = wgc s" and "mp t = mp s" and "dp t = (dp s)(i := q)"
  shows "d_inv n D t"
  using assms main_ok_upd [of n D "mp s" "dp s" i q]
  by (auto simp: d_inv_def tally_upd before_done_def)

lemma d_inv_step:
  assumes "d_inv n D s" and "d_step n D s t"
  shows "d_inv n D t"
  using assms(2)
proof (cases rule: d_step.cases)
  case (d_spawn i)
  then have "main_ok n D (MSpawn (Suc i)) ((dp s)(i := DDial))"
    using assms(1) by (auto simp: d_inv_def Suc_le_eq le_less)
  moreover have "dp s i = DNew" using assms(1) d_spawn by (simp add: d_inv_def)
  ultimately show ?thesis using assms(1) d_spawn by (auto simp: d_inv_def tally_upd before_done_def)
next
  case d_spawned
  with assms(1) show ?thesis by (auto simp: d_inv_def)
next
  case (d_dial i)
  with assms(1) show ?thesis
    by (intro d_inv_dialer [OF assms(1), where i = i and q = "DAssigned True"])
      (auto simp: d_inv_def all_dial_def before_done_def)
next
  case (d_check i ok)
  with assms(1) show ?thesis
    by (intro d_inv_dialer [OF assms(1), where i = i and q = "DChecked True"])
      (auto simp: d_inv_def before_done_def)
next
  case (d_shake i)
  with assms(1) show ?thesis
    by (intro d_inv_dialer [OF assms(1), where i = i and q = DShaken]) (auto simp: d_inv_def before_done_def)
next
  case (d_done i)
  with assms(1) main_ok_upd [of n D "mp s" "dp s" i DSending] show ?thesis
    by (auto simp: d_inv_def tally_upd before_done_def)
next
  case m_wait
  then have "\<forall>i<n. \<not> before_done (dp s i)" "\<forall>i<n. dp s i \<noteq> DEnd"
    using assms(1) by (auto simp: d_inv_def tally_zero_iff)
  moreover from this(2) have "tally (\<lambda>q. q = DEnd) (dp s) n = 0" "received n D (dp s) = 0"
    by (simp_all add: tally_zero_iff received_def)
  ultimately show ?thesis using assms(1) m_wait by (simp add: d_inv_def)
next
  case (m_recv k d i)
  with assms(1) show ?thesis by (auto simp: d_inv_def tally_upd received_upd before_done_def)
next
  case (m_average d)
  then have "tally (\<lambda>q. q = DEnd) (dp s) n = int n" using assms(1) by (simp add: d_inv_def)
  then have "\<forall>i<n. dp s i = DEnd" using tally_full by blast
  with assms(1) m_average show ?thesis by (simp add: d_inv_def received_def)
qed (use assms(1) in \<open>auto simp: d_inv_def all_dial_def\<close>)

section \<open>Progress\<close>

fun d_weight :: "dpc \<Rightarrow> nat" where
  "d_weight DNew = 6"
| "d_weight DDial = 5"
| "d_weight (DAssigned ok) = 4"
| "d_weight (DChecked ok) = 3"
| "d_weight DShaken = 2"
| "d_weight DSending = 1"
| "d_weight DEnd = 0"

fun m_weight :: "mpc \<Rightarrow> nat" where
  "m_weight (MSpawn i) = 3"
| "m_weight MWait = 2"
| "m_weight (MRecv k d) = 1"
| "m_weight (MAvg a) = 0"

definition d_budget :: "nat \<Rightarrow> dsys \<Rightarrow> nat" where
  "d_budget n s = (\<Sum>i<n. d_weight (dp s i)) + m_weight (mp s)"

definition d_goal :: "nat \<Rightarrow> dialer \<Rightarrow> dsys \<Rightarrow> bool" where
  "d_goal n D s \<longleftrightarrow> mp s = MAvg ((\<Sum>i<n. latency D i) sdiv int n)"

lemma d_budget_dialer:
  assumes "i < n" and "dp t = (dp s)(i := q)" and "mp t = m" and "d_weight q + m_weight m < d_weight (dp s i) + m_weight (mp s)"
  shows "d_budget n t < d_budget n s"
  using sum_upd [OF assms(1), of d_weight "dp s" q] assms by (simp add: d_budget_def del: fun_upd_apply)

lemma d_budget_step:
  assumes "d_inv n D s" and "d_step n D s t"
  shows "d_budget n t < d_budget n s"
proof -
  have "dstop t = None" using d_inv_step [OF assms] by (simp add: d_inv_def)
  from assms(2) show ?thesis
  proof (cases rule: d_step.cases)
    case (d_spawn i)
    then have "dp s i = DNew" using assms(1) by (simp add: d_inv_def)
    with d_spawn show ?thesis by (intro d_budget_dialer [where i = i and q = DDial and m = "MSpawn (Suc i)"]) simp_all
  next
    case (m_recv k d i)
    then show ?thesis by (intro d_budget_dialer [where i = i and q = DEnd and m = "MRecv (Suc k) (d + latency D i)"]) simp_all
  next
    case d_spawned
    then show ?thesis by (simp add: d_budget_def)
  next
    case m_wait
    then show ?thesis by (simp add: d_budget_def)
  next
    case m_average
    then show ?thesis by (simp add: d_budget_def)
  qed (use \<open>dstop t = None\<close> in \<open>auto intro: d_budget_dialer\<close>)
qed

text \<open>A dialer that has been started and has not reported can move.\<close>

lemma dialer_steps:
  assumes "d_inv n D s" and "i < n" and "dp s i \<noteq> DNew" and "before_done (dp s i)"
  shows "\<exists>t. d_step n D s t"
proof (cases "dp s i")
  case DDial
  with d_dial [of s i n D] assms show ?thesis by (auto simp: d_inv_def all_dial_def)
next
  case (DAssigned ok)
  with d_check [of s i n ok D] assms show ?thesis by (auto simp: d_inv_def)
next
  case (DChecked ok)
  with d_shake [of s i n D] assms show ?thesis by (cases ok) (auto simp: d_inv_def all_dial_def)
next
  case DShaken
  with d_done [of s i n D] assms show ?thesis by (auto simp: d_inv_def)
qed (use assms in \<open>simp_all add: before_done_def\<close>)

lemma d_not_stuck:
  assumes inv: "d_inv n D s" and "\<not> d_goal n D s"
  shows "\<exists>t. d_step n D s t"
proof (cases "mp s")
  case (MSpawn j)
  with inv d_spawn [of s j n D] d_spawned [of s n D] show ?thesis
    by (cases "j = n") (auto simp: d_inv_def)
next
  case MWait
  show ?thesis
  proof (cases "wgc s = 0")
    case True
    with MWait inv m_wait [of s n D] show ?thesis by (auto simp: d_inv_def)
  next
    case False
    then obtain i where "i < n" "before_done (dp s i)"
      using inv tally_zero_iff [of before_done "dp s" n] by (auto simp: d_inv_def)
    with MWait inv dialer_steps [OF inv, of i] show ?thesis by (simp add: d_inv_def)
  qed
next
  case (MRecv k d)
  with inv have k: "int k = tally (\<lambda>q. q = DEnd) (dp s) n" and sent: "\<forall>i<n. dp s i = DSending \<or> dp s i = DEnd"
    by (auto simp: d_inv_def before_done_def)
  show ?thesis
  proof (cases "k = n")
    case True
    with MRecv inv m_average [of s n d D] show ?thesis by (auto simp: d_inv_def all_dial_def)
  next
    case False
    then have "tally (\<lambda>q. q = DEnd) (dp s) n \<noteq> int n" using k by simp
    then obtain i where "i < n" "dp s i \<noteq> DEnd" using tally_all [of n "\<lambda>q. q = DEnd" "dp s"] by blast
    moreover have "k < n" using False k tally_le [of "\<lambda>q. q = DEnd" "dp s" n] by simp
    ultimately show ?thesis using m_recv [of s k d n i D] MRecv inv sent by (auto simp: d_inv_def)
  qed
next
  case (MAvg a)
  with assms show ?thesis by (simp add: d_inv_def d_goal_def)
qed

interpretation tlsd: machine_progress "\<lambda>s. d_start n s \<and> all_dial n D" "d_step n D" "d_inv n D" "d_budget n" "d_goal n D"
  by unfold_locales (auto intro: d_inv_start d_inv_step d_budget_step d_not_stuck)

section \<open>Properties\<close>

text \<open>
  When every dial and handshake succeeds, the client finishes: although each goroutine
  reports to the wait group before it sends its latency and the channel has no buffer, no
  run is stuck short of the end, no run has more than \<open>6 n + 3\<close> steps, and at the end main
  has the sum of all latencies divided by their number.
\<close>

theorem tls_dials_finish:
  assumes "d_start n s" and "all_dial n D"
  shows "(\<forall>ts. run_from (d_step n D) s ts \<longrightarrow> length ts \<le> 6 * n + 3)
    \<and> (\<forall>t. (d_step n D)\<^sup>*\<^sup>* s t \<longrightarrow> dstop t = None \<and> (\<exists>u. (d_step n D)\<^sup>*\<^sup>* t u \<and> mp u = MAvg ((\<Sum>i<n. latency D i) sdiv int n)))
    \<and> (\<forall>t. (d_step n D)\<^sup>*\<^sup>* s t \<longrightarrow> (\<nexists>u. d_step n D t u) \<longrightarrow> mp t = MAvg ((\<Sum>i<n. latency D i) sdiv int n))"
proof -
  note inv = d_inv_start [OF assms]
  note at = tlsd.steps_inv [OF _ inv]
  have "d_budget n s = 6 * n + 3" using assms(1) by (simp add: d_budget_def d_start_def)
  then show ?thesis
    using tlsd.run_bounded [OF inv] tlsd.reaches_goal [OF at] tlsd.maximal_run_at_goal [OF at] at
    unfolding d_goal_def d_inv_def by (intro conjI allI impI; force)
qed

definition demo_dialer :: "string option \<Rightarrow> dialer" where
  "demo_dialer e = \<lparr>target = dial_target ''srv'' ''noproxy'', dial = (\<lambda>i. if i = 0 then e else None), handshake = (\<lambda>i. None),
     latency = (\<lambda>i. 10 + 5 * int i)\<rparr>"

definition demo_dsys :: "nat \<Rightarrow> dsys" where
  "demo_dsys n = \<lparr>derr = None, dp = (\<lambda>_. DNew), wgc = int n, mp = MSpawn 0, dstop = None\<rparr>"

theorem tls_dials_finish_witness:
  "\<exists>u. (d_step 2 (demo_dialer None))\<^sup>*\<^sup>* (demo_dsys 2) u \<and> mp u = MAvg 12"
proof -
  have "d_start 2 (demo_dsys 2)" "all_dial 2 (demo_dialer None)"
    by (simp_all add: d_start_def demo_dsys_def all_dial_def demo_dialer_def dial_target_def)
  from conjunct1 [OF conjunct2 [OF tls_dials_finish [OF this]]] obtain u where
    "(d_step 2 (demo_dialer None))\<^sup>*\<^sup>* (demo_dsys 2) u"
    "mp u = MAvg ((\<Sum>i<2. latency (demo_dialer None) i) sdiv int 2)" by blast
  then show ?thesis
    by (intro exI [of _ u]) (simp add: demo_dialer_def numeral_2_eq_2 signed_divide_int_def)
qed

text \<open>
  The shared \<open>err\<close> is a race: with two dials of which the first fails, there is a run in
  which the second clears the first one's error before it is tested, and the first goes on
  to the handshake of a nil connection, so the process panics instead of reporting the
  error; in another run the successful second one reports the first one's error.
\<close>

theorem tls_err_race:
  "(\<exists>t. (d_step 2 (demo_dialer (Some e)))\<^sup>*\<^sup>* (demo_dsys 2) t \<and> dstop t = Some (Panic ''nil pointer dereference''))
   \<and> (\<exists>t. (d_step 2 (demo_dialer (Some e)))\<^sup>*\<^sup>* (demo_dsys 2) t
        \<and> dp t 1 = DAssigned True \<and> derr t = Some e \<and> dstop t = None)"
proof -
  let ?R = "d_step 2 (demo_dialer (Some e))"
  note defs = demo_dialer_def dial_target_def demo_dsys_def
  define s1 where "s1 = (demo_dsys 2)\<lparr>dp := (dp (demo_dsys 2))(0 := DDial), mp := MSpawn (Suc 0)\<rparr>"
  define s2 where "s2 = s1\<lparr>dp := (dp s1)(1 := DDial), mp := MSpawn (Suc 1)\<rparr>"
  define a3 where "a3 = s2\<lparr>derr := Some e, dp := (dp s2)(0 := DAssigned False)\<rparr>"
  define a4 where "a4 = a3\<lparr>derr := None, dp := (dp a3)(1 := DAssigned True)\<rparr>"
  define a5 where "a5 = a4\<lparr>dp := (dp a4)(0 := DChecked False)\<rparr>"
  define a6 where "a6 = a5\<lparr>dstop := Some (Panic ''nil pointer dereference'')\<rparr>"
  define b3 where "b3 = s2\<lparr>derr := None, dp := (dp s2)(1 := DAssigned True)\<rparr>"
  define b4 where "b4 = b3\<lparr>derr := Some e, dp := (dp b3)(0 := DAssigned False)\<rparr>"
  note states = s1_def s2_def a3_def a4_def a5_def a6_def b3_def b4_def
  have s: "?R\<^sup>*\<^sup>* (demo_dsys 2) s2"
    using d_spawn [of "demo_dsys 2" 0 2 "demo_dialer (Some e)"] d_spawn [of s1 1 2 "demo_dialer (Some e)"]
    by (simp add: s2_def s1_def defs)
  have "?R s2 a3" "?R a3 a4" "?R a4 a5" "?R a5 a6"
    using d_dial [of s2 0 2 "demo_dialer (Some e)"] d_dial [of a3 1 2 "demo_dialer (Some e)"]
      d_check [of a4 0 2 False "demo_dialer (Some e)"] d_nil [of a5 0 2 "demo_dialer (Some e)"]
    by (simp_all add: states defs)
  with s have a: "?R\<^sup>*\<^sup>* (demo_dsys 2) a6" by (meson rtranclp.rtrancl_into_rtrancl)
  have "?R s2 b3" "?R b3 b4"
    using d_dial [of s2 1 2 "demo_dialer (Some e)"] d_dial [of b3 0 2 "demo_dialer (Some e)"]
    by (simp_all add: states defs)
  with s have b: "?R\<^sup>*\<^sup>* (demo_dsys 2) b4" by (meson rtranclp.rtrancl_into_rtrancl)
  have "dstop a6 = Some (Panic ''nil pointer dereference'')"
    and "dp b4 1 = DAssigned True \<and> derr b4 = Some e \<and> dstop b4 = None"
    by (simp_all add: states defs)
  with a b show ?thesis by blast
qed

end
