(* ===== verification/TlsSrv.thy ===== *)
theory TlsSrv
  imports Prelude
begin

text \<open>
  The TLS server \<open>tls/cmd/server/main.go\<close>: it loads its certificate, listens, and accepts
  connections one at a time, performing each handshake before the next accept. What the
  network does is a list of arrivals in their order.
\<close>

section \<open>The accept loop\<close>

text \<open>
  A client completes its handshake, makes it fail, or connects and stays silent: no deadline
  is set, so the server then waits for ever.
\<close>

datatype handshake = HsOk | HsErr string | HsSilent

datatype arrival = AcceptErr string | Conn handshake

text \<open>Where the loop is once the arrivals are used up, and how many handshakes it has completed.\<close>

datatype srv_status = Accepting | InHandshake | Exited go_stop

fun accept_loop :: "arrival list \<Rightarrow> nat \<Rightarrow> srv_status \<times> nat" where
  "accept_loop [] n = (Accepting, n)"
| "accept_loop (AcceptErr err # as) n = (Exited (Fatal ''Err accept''), n)"
| "accept_loop (Conn HsOk # as) n = accept_loop as (Suc n)"
| "accept_loop (Conn (HsErr err) # as) n = (Exited (Fatal ''Err TLS handshake''), n)"
| "accept_loop (Conn HsSilent # as) n = (InHandshake, n)"

definition tls_server_main :: "string option \<Rightarrow> string option \<Rightarrow> arrival list \<Rightarrow> srv_status \<times> nat" where
  "tls_server_main cert_err listen_err as =
     (if cert_err \<noteq> None then (Exited (Fatal ''Err load cert''), 0)
      else if listen_err \<noteq> None then (Exited (Fatal ''Err listen on addr''), 0)
      else accept_loop as 0)"

section \<open>The loop splits at the first bad arrival\<close>

definition good :: "arrival \<Rightarrow> bool" where
  "good a \<longleftrightarrow> a = Conn HsOk"

fun ends_with :: "arrival \<Rightarrow> srv_status" where
  "ends_with (AcceptErr err) = Exited (Fatal ''Err accept'')"
| "ends_with (Conn HsOk) = Accepting"
| "ends_with (Conn (HsErr err)) = Exited (Fatal ''Err TLS handshake'')"
| "ends_with (Conn HsSilent) = InHandshake"

lemma good_simps [simp]: "good (Conn HsOk)" "\<not> good (AcceptErr e)" "\<not> good (Conn (HsErr e))" "\<not> good (Conn HsSilent)"
  by (simp_all add: good_def)

lemma accept_loop_eq:
  "accept_loop as n =
     (case dropWhile good as of
        [] \<Rightarrow> Accepting
      | a # _ \<Rightarrow> ends_with a, n + length (takeWhile good as))"
  by (induction as n rule: accept_loop.induct) simp_all

lemma accept_loop_bad: "\<not> good a \<Longrightarrow> accept_loop (a # as) n = (ends_with a, n)"
  by (cases a rule: ends_with.cases) simp_all

lemma accept_loop_good: "list_all good as \<Longrightarrow> accept_loop (as @ bs) n = accept_loop bs (n + length as)"
  by (induction as arbitrary: n) (simp_all add: good_def)

lemma ends_with_Accepting: "ends_with a = Accepting \<longleftrightarrow> good a"
  by (cases a rule: ends_with.cases) simp_all

section \<open>Properties\<close>

text \<open>
  The server completes exactly the handshakes before the first arrival that goes wrong,
  and is still accepting exactly when nothing went wrong. One client whose handshake fails
  ends the process, one that stays silent stops it, and whoever comes after them is not
  served, whatever they do.
\<close>

theorem tls_server_first_failure:
  "snd (tls_server_main None None as) = length (takeWhile good as)
   \<and> (fst (tls_server_main None None as) = Accepting \<longleftrightarrow> (\<forall>a\<in>set as. good a))
   \<and> (\<not> good a \<longrightarrow>
       tls_server_main None None (as @ a # bs) = tls_server_main None None (as @ [a])
       \<and> (list_all good as \<longrightarrow> tls_server_main None None (as @ a # bs) = (ends_with a, length as)))"
proof (intro conjI impI)
  show "fst (tls_server_main None None as) = Accepting \<longleftrightarrow> (\<forall>a\<in>set as. good a)"
  proof (cases "dropWhile good as")
    case Nil
    then have "\<forall>a\<in>set as. good a" by (simp add: dropWhile_eq_Nil_conv)
    then show ?thesis by (simp add: tls_server_main_def accept_loop_eq Nil)
  next
    case (Cons b cs)
    then have "\<not> good b" "b \<in> set as"
      using hd_dropWhile [of good as] set_dropWhileD [of b good as] by auto
    with Cons show ?thesis by (auto simp: tls_server_main_def accept_loop_eq ends_with_Accepting)
  qed
next
  assume a: "\<not> good a"
  have dw: "dropWhile good (as @ a # cs) = dropWhile good as @ a # cs" for cs
    using a by (induction as) auto
  have tw: "takeWhile good (as @ a # cs) = takeWhile good as" for cs
    using a by (induction as) auto
  show "tls_server_main None None (as @ a # bs) = tls_server_main None None (as @ [a])"
    by (cases "dropWhile good as")
      (simp_all add: tls_server_main_def accept_loop_eq dw tw del: dropWhile_eq_Nil_conv)
  assume "list_all good as"
  then show "tls_server_main None None (as @ a # bs) = (ends_with a, length as)"
    using a by (simp add: tls_server_main_def accept_loop_good accept_loop_bad)
qed (simp add: tls_server_main_def accept_loop_eq)

theorem tls_server_first_failure_witness:
  "tls_server_main None None [Conn HsOk, Conn (HsErr ''EOF''), Conn HsOk] = (Exited (Fatal ''Err TLS handshake''), 1)
   \<and> tls_server_main None None [Conn HsOk, Conn HsSilent, Conn HsOk] = (InHandshake, 1)"
  using tls_server_first_failure [of "[Conn HsOk]" "Conn (HsErr ''EOF'')" "[Conn HsOk]"]
    tls_server_first_failure [of "[Conn HsOk]" "Conn HsSilent" "[Conn HsOk]"]
  by (auto simp: tls_server_main_def)

end
