(* ===== verification/TlsNet.thy ===== *)
theory TlsNet
  imports TlsDial TlsSrv
begin

text \<open>
  The TLS client and the TLS server together. \<open>tls.Dial\<close> returns when the server has accepted
  the connection and done its side of the handshake, and the server does one at a time; the
  connections wait in the listener's queue, which is taken to be long enough, in the order in
  which they were made. What is assumed of the network is that nothing fails.
\<close>

section \<open>The network\<close>

text \<open>\<open>backlog\<close>: connected and not accepted; \<open>serving\<close>: accepted; \<open>shaken\<close>: handshakes the server has completed.\<close>

record tnet =
  cl :: dsys
  backlog :: "nat list"
  serving :: "nat option"
  shaken :: "nat list"

definition t_start :: "nat \<Rightarrow> tnet \<Rightarrow> bool" where
  "t_start n s \<longleftrightarrow> d_start n (cl s) \<and> backlog s = [] \<and> serving s = None \<and> shaken s = []"

text \<open>The client moves by itself, except that no dial returns by itself.\<close>

inductive t_step :: "nat \<Rightarrow> dialer \<Rightarrow> tnet \<Rightarrow> tnet \<Rightarrow> bool" for n :: nat and D :: dialer where
  t_client: "d_step n D (cl s) c \<Longrightarrow> \<forall>i. dp (cl s) i = DDial \<longrightarrow> dp c i = DDial \<Longrightarrow> t_step n D s (s\<lparr>cl := c\<rparr>)"
| t_connect: "i < n \<Longrightarrow> dp (cl s) i = DDial \<Longrightarrow> i \<notin> set (backlog s) \<Longrightarrow> serving s \<noteq> Some i \<Longrightarrow>
     t_step n D s (s\<lparr>backlog := backlog s @ [i]\<rparr>)"
| t_accept: "serving s = None \<Longrightarrow> backlog s = i # is \<Longrightarrow>
     t_step n D s (s\<lparr>serving := Some i, backlog := is\<rparr>)"
| t_handshake: "serving s = Some i \<Longrightarrow>
     t_step n D s (s\<lparr>cl := (cl s)\<lparr>derr := None, dp := (dp (cl s))(i := DAssigned True)\<rparr>,
       serving := None, shaken := shaken s @ [i]\<rparr>)"

text \<open>What the server has seen so far: completed handshakes, and perhaps a client that is still silent.\<close>

definition arrivals :: "tnet \<Rightarrow> arrival list" where
  "arrivals s = replicate (length (shaken s)) (Conn HsOk) @ (case serving s of None \<Rightarrow> [] | Some i \<Rightarrow> [Conn HsSilent])"

lemma accept_loop_ok: "accept_loop (replicate k (Conn HsOk) @ as) m = accept_loop as (k + m)"
  by (induction k arbitrary: m) simp_all

lemma server_status:
  "accept_loop (arrivals s) 0 = (if serving s = None then Accepting else InHandshake, length (shaken s))"
  by (auto simp: arrivals_def accept_loop_ok split: option.splits)

section \<open>The invariant\<close>

definition waiting :: "tnet \<Rightarrow> nat list" where
  "waiting s = (case serving s of None \<Rightarrow> [] | Some i \<Rightarrow> [i]) @ backlog s"

text \<open>Who waits at the server is dialling, and who has been served is not any more.\<close>

definition t_inv :: "nat \<Rightarrow> dialer \<Rightarrow> tnet \<Rightarrow> bool" where
  "t_inv n D s \<longleftrightarrow> d_inv n D (cl s) \<and> distinct (waiting s @ shaken s)
     \<and> (\<forall>i\<in>set (waiting s). i < n \<and> dp (cl s) i = DDial)
     \<and> set (shaken s) = {i. i < n \<and> dp (cl s) i \<noteq> DNew \<and> dp (cl s) i \<noteq> DDial}"

lemma handshake_dial:
  assumes "t_inv n D s" and "serving s = Some i"
  shows "d_step n D (cl s) ((cl s)\<lparr>derr := None, dp := (dp (cl s))(i := DAssigned True)\<rparr>)"
  using d_dial [of "cl s" i n D] assms by (auto simp: t_inv_def waiting_def d_inv_def all_dial_def)

text \<open>A step of the client that is not the return of a dial leaves alone who is dialling and who is past it.\<close>

lemma client_frame:
  assumes "d_inv n D c" and "d_step n D c c'" and "\<forall>i. dp c i = DDial \<longrightarrow> dp c' i = DDial"
  shows "{i. i < n \<and> dp c' i \<noteq> DNew \<and> dp c' i \<noteq> DDial} = {i. i < n \<and> dp c i \<noteq> DNew \<and> dp c i \<noteq> DDial}"
  using assms(2)
proof (cases rule: d_step.cases)
  case (d_spawn i)
  then have "dp c i = DNew" using assms(1) by (simp add: d_inv_def)
  with d_spawn show ?thesis by auto
next
  case (d_dial i)
  then have "dp c' i \<noteq> DDial" "dp c i = DDial" by simp_all
  with assms(3) show ?thesis by blast
qed auto

lemma t_inv_step:
  assumes inv: "t_inv n D s" and step: "t_step n D s s'"
  shows "t_inv n D s'"
  using step
proof cases
  case (t_client c)
  then have same: "waiting s' = waiting s" "shaken s' = shaken s" "cl s' = c" by (simp_all add: waiting_def)
  have "d_inv n D (cl s)" using inv by (simp only: t_inv_def)
  note d_inv_step [OF this t_client(2)] client_frame [OF this t_client(2,3)]
  with inv t_client(3) show ?thesis unfolding t_inv_def same by metis
next
  case (t_connect i)
  then have "i \<notin> set (shaken s)" using inv by (simp add: t_inv_def)
  with t_connect inv show ?thesis by (auto simp: t_inv_def waiting_def split: option.splits)
next
  case (t_accept i "is")
  then have "waiting s' = waiting s" "shaken s' = shaken s" "cl s' = cl s" by (simp_all add: waiting_def)
  with inv show ?thesis unfolding t_inv_def by metis
next
  case (t_handshake i)
  then have "i < n" "dp (cl s) i = DDial" "i \<notin> set (backlog s)" "i \<notin> set (shaken s)"
    using inv by (auto simp: t_inv_def waiting_def)
  with t_handshake inv d_inv_step [OF _ handshake_dial [OF inv t_handshake(2)]] show ?thesis
    by (auto simp: t_inv_def waiting_def)
qed

lemma t_inv_start: "t_start n s \<Longrightarrow> all_dial n D \<Longrightarrow> t_inv n D s"
  using d_inv_start [of n "cl s" D] by (auto simp: t_start_def t_inv_def waiting_def d_start_def)

section \<open>Progress\<close>

definition t_budget :: "nat \<Rightarrow> tnet \<Rightarrow> nat" where
  "t_budget n s = d_budget n (cl s) + 2 * (n - length (waiting s @ shaken s)) + length (backlog s)"

definition t_goal :: "nat \<Rightarrow> dialer \<Rightarrow> tnet \<Rightarrow> bool" where
  "t_goal n D s \<longleftrightarrow> d_goal n D (cl s)"

lemma in_progress_le:
  assumes "t_inv n D s"
  shows "length (waiting s @ shaken s) \<le> n"
proof -
  have "set (waiting s @ shaken s) \<subseteq> {..<n}" using assms by (auto simp: t_inv_def)
  then have "card (set (waiting s @ shaken s)) \<le> n" using card_mono [of "{..<n}"] by fastforce
  moreover have "distinct (waiting s @ shaken s)" using assms by (simp only: t_inv_def)
  ultimately show ?thesis by (simp only: distinct_card)
qed

lemma t_budget_step:
  assumes inv: "t_inv n D s" and step: "t_step n D s s'"
  shows "t_budget n s' < t_budget n s"
proof -
  have d: "d_inv n D (cl s)" using inv by (simp add: t_inv_def)
  have le: "length (waiting s' @ shaken s') \<le> n" by (rule in_progress_le [OF t_inv_step [OF assms]])
  from step show ?thesis
  proof cases
    case (t_client c)
    with d_budget_step [OF d t_client(2)] show ?thesis by (simp add: t_budget_def waiting_def)
  next
    case (t_connect i)
    with le show ?thesis by (simp add: t_budget_def waiting_def)
  next
    case (t_accept i "is")
    then show ?thesis by (simp add: t_budget_def waiting_def)
  next
    case (t_handshake i)
    with d_budget_step [OF d handshake_dial [OF inv t_handshake(2)]] show ?thesis
      by (simp add: t_budget_def waiting_def)
  qed
qed

lemma t_not_stuck:
  assumes inv: "t_inv n D s" and "\<not> t_goal n D s"
  shows "\<exists>s'. t_step n D s s'"
proof (cases "serving s")
  case (Some i)
  then show ?thesis by (blast intro: t_handshake)
next
  case None
  show ?thesis
  proof (cases "backlog s")
    case (Cons i "is")
    with None show ?thesis by (blast intro: t_accept)
  next
    case Nil
    show ?thesis
    proof (cases "\<exists>i<n. dp (cl s) i = DDial")
      case True
      then obtain i where "i < n" "dp (cl s) i = DDial" by blast
      from t_connect [OF this, of D] Nil None show ?thesis by auto
    next
      case False
      obtain c where c: "d_step n D (cl s) c" using d_not_stuck [of n D "cl s"] assms by (auto simp: t_inv_def t_goal_def)
      have "dp c i = dp (cl s) i" if "\<not> i < n" for i
        using c that by cases auto
      with False have "\<forall>i. dp (cl s) i = DDial \<longrightarrow> dp c i = DDial" by metis
      with c show ?thesis by (blast intro: t_client)
    qed
  qed
qed

interpretation tnp: machine_progress "\<lambda>s. t_start n s \<and> all_dial n D" "t_step n D" "t_inv n D" "t_budget n" "t_goal n D"
  by unfold_locales (auto intro: t_inv_start t_inv_step t_budget_step t_not_stuck)

text \<open>Forgetting the server, every run is one of the client's alone.\<close>

interpretation tnr: machine_refinement "\<lambda>s. t_start n s \<and> all_dial n D" "t_step n D" "t_inv n D"
  "d_start n" "d_step n D" cl
proof
  fix s s' assume inv: "t_inv n D s" and step: "t_step n D s s'" and ne: "cl s' \<noteq> cl s"
  from step show "d_step n D (cl s) (cl s')"
  proof cases
    case (t_handshake i)
    then show ?thesis using handshake_dial [OF inv] by simp
  qed (use ne in simp_all)
qed (simp add: t_start_def)

section \<open>Properties\<close>

text \<open>
  C21. Client and server together, with nothing failing, come to an end: a run over \<open>n\<close> dials
  has at most \<open>8 n + 3\<close> steps although the server shakes hands with one client at a time;
  from every state it can be continued until main has its average; and a run that cannot be
  continued is there, every dial having been served exactly once, in some order, with the
  server back at its accept. What the client does is a run of the client alone. Before that the server is what its accept loop makes of the
  handshakes it has done and of the client it waits for.
\<close>

theorem tls_session_finishes:
  assumes "t_start n s" and "all_dial n D"
  shows "(\<forall>ts. run_from (t_step n D) s ts \<longrightarrow> length ts \<le> 8 * n + 3)
    \<and> (\<forall>s'. (t_step n D)\<^sup>*\<^sup>* s s' \<longrightarrow> dstop (cl s') = None \<and> (d_step n D)\<^sup>*\<^sup>* (cl s) (cl s')
         \<and> tls_server_main None None (arrivals s') = (if serving s' = None then Accepting else InHandshake, length (shaken s'))
         \<and> (\<exists>u. (t_step n D)\<^sup>*\<^sup>* s' u \<and> mp (cl u) = MAvg ((\<Sum>i<n. latency D i) sdiv int n)))
    \<and> (\<forall>s'. (t_step n D)\<^sup>*\<^sup>* s s' \<longrightarrow> (\<nexists>u. t_step n D s' u) \<longrightarrow>
         mp (cl s') = MAvg ((\<Sum>i<n. latency D i) sdiv int n)
         \<and> distinct (shaken s') \<and> set (shaken s') = {..<n} \<and> tls_server_main None None (arrivals s') = (Accepting, n))"
proof (intro conjI allI impI)
  note inv = t_inv_start [OF assms]
  note at = tnp.steps_inv [OF _ inv]
  have "t_budget n s = 8 * n + 3"
    using assms(1) by (simp add: t_budget_def d_budget_def t_start_def d_start_def waiting_def)
  then show "run_from (t_step n D) s ts \<Longrightarrow> length ts \<le> 8 * n + 3" for ts
    using tnp.run_bounded [OF inv] by fastforce
  fix s' assume r: "(t_step n D)\<^sup>*\<^sup>* s s'"
  show "(d_step n D)\<^sup>*\<^sup>* (cl s) (cl s')" by (rule tnr.steps_abs [OF r inv])
  show "dstop (cl s') = None" using at [OF r] by (simp add: t_inv_def d_inv_def)
  show status: "tls_server_main None None (arrivals s') = (if serving s' = None then Accepting else InHandshake, length (shaken s'))"
    by (simp add: tls_server_main_def server_status)
  show "\<exists>u. (t_step n D)\<^sup>*\<^sup>* s' u \<and> mp (cl u) = MAvg ((\<Sum>i<n. latency D i) sdiv int n)"
    using tnp.reaches_goal [OF at [OF r]] by (auto simp: t_goal_def d_goal_def)
  assume "\<nexists>u. t_step n D s' u"
  then have goal: "mp (cl s') = MAvg ((\<Sum>i<n. latency D i) sdiv int n)"
    using tnp.maximal_run_at_goal [OF at [OF r]] by (simp add: t_goal_def d_goal_def)
  then have ended: "\<forall>i<n. dp (cl s') i = DEnd" using at [OF r] by (simp add: t_inv_def d_inv_def)
  show "mp (cl s') = MAvg ((\<Sum>i<n. latency D i) sdiv int n)" by (rule goal)
  show d: "distinct (shaken s')" using at [OF r] by (simp add: t_inv_def)
  show all: "set (shaken s') = {..<n}" using at [OF r] ended by (auto simp: t_inv_def)
  have "waiting s' = []" using at [OF r] ended by (cases "waiting s'") (auto simp: t_inv_def)
  then have "serving s' = None" by (auto simp: waiting_def split: option.splits)
  moreover have "length (shaken s') = n" using distinct_card [OF d] all by simp
  ultimately show "tls_server_main None None (arrivals s') = (Accepting, n)" using status by simp
qed

definition demo_tnet :: "nat \<Rightarrow> tnet" where
  "demo_tnet n = \<lparr>cl = demo_dsys n, backlog = [], serving = None, shaken = []\<rparr>"

theorem tls_session_finishes_witness:
  "\<exists>u. (t_step 2 (demo_dialer None))\<^sup>*\<^sup>* (demo_tnet 2) u \<and> mp (cl u) = MAvg 12"
proof -
  have "t_start 2 (demo_tnet 2)" "all_dial 2 (demo_dialer None)"
    by (simp_all add: t_start_def demo_tnet_def d_start_def demo_dsys_def all_dial_def demo_dialer_def dial_target_def)
  from conjunct1 [OF conjunct2 [OF tls_session_finishes [OF this]]] obtain u where
    "(t_step 2 (demo_dialer None))\<^sup>*\<^sup>* (demo_tnet 2) u"
    "mp (cl u) = MAvg ((\<Sum>i<2. latency (demo_dialer None) i) sdiv int 2)" by blast
  then show ?thesis
    by (intro exI [of _ u]) (simp add: demo_dialer_def numeral_2_eq_2 signed_divide_int_def)
qed

end
