(* ===== verification/Throughput.thy ===== *)
theory Throughput
  imports GoIO GoTime
begin

text \<open>
  The throughput meters \<open>cgroups/net/cmd/server/main.go\<close> and \<open>cgroups/net/cmd/client/main.go\<close>:
  one process writes buffers as fast as it can, the other reads them, and each prints its
  rate every few seconds. \<open>now k\<close> is the \<open>k\<close>-th reading of the process's clock, in
  nanoseconds. Rates are exact rationals where the code has \<open>float64\<close>.
\<close>

section \<open>The meter\<close>

definition BUF_SZ :: nat where "BUF_SZ = 8192"
definition PRINT_FREQ :: int where "PRINT_FREQ = 5 * Second"

text \<open>
  The locals \<open>nByte\<close> and \<open>t\<close> of the loops, the number of clock readings so far, and for each
  line printed the values of \<open>nByte\<close>, \<open>elapsed\<close> and \<open>tpt\<close>.
\<close>

record meter =
  nByte :: int
  since :: int
  readings :: nat
  printed :: "(int \<times> int \<times> int) list"

definition meter_start :: "(nat \<Rightarrow> int) \<Rightarrow> meter" where
  "meter_start now = \<lparr>nByte = 0, since = now 0, readings = 1, printed = []\<rparr>"

text \<open>\<open>elapsed/time.Second\<close> is a division of integers, and \<open>uint64\<close> of a positive float truncates.\<close>

definition tpt :: "int \<Rightarrow> int \<Rightarrow> int" where
  "tpt nb elapsed = \<lfloor>of_int nb / of_int (elapsed sdiv Second) :: rat\<rfloor>"

text \<open>The end of a turn: count, look at the clock, and perhaps print and start over.\<close>

definition count_bytes :: "(nat \<Rightarrow> int) \<Rightarrow> nat \<Rightarrow> meter \<Rightarrow> meter" where
  "count_bytes now n m =
     (let m1 = m\<lparr>nByte := nByte m + int n, readings := readings m + 1\<rparr> in
      if now (readings m) - since m > PRINT_FREQ
      then let elapsed = now (readings m + 1) - since m
           in m1\<lparr>nByte := 0, since := now (readings m + 2), readings := readings m + 3,
                 printed := printed m @ [(nByte m1, elapsed, tpt (nByte m1) elapsed)]\<rparr>
      else m1)"

section \<open>The two programs\<close>

text \<open>Neither loop has an exit but \<open>log.Fatalf\<close>; \<open>None\<close> is a loop that goes on for ever.\<close>

partial_function (option) read_loop ::
  "(nat \<Rightarrow> int) \<Rightarrow> conn \<Rightarrow> byte list \<Rightarrow> meter \<Rightarrow> (go_stop \<times> conn \<times> meter) option" where
  "read_loop now c b m =
     (case ReadFull c b of
        (n, Some err, c', b') \<Rightarrow> Some (Fatal ''Err read buf'', c', m)
      | (n, None, c', b') \<Rightarrow>
          if n \<noteq> length b then Some (Fatal ''Err short read'', c', m)
          else read_loop now c' b' (count_bytes now n m))"

definition read_conn :: "(nat \<Rightarrow> int) \<Rightarrow> conn \<Rightarrow> (go_stop \<times> conn \<times> meter) option" where
  "read_conn now c = read_loop now c (mkbuf BUF_SZ) (meter_start now)"

partial_function (option) write_loop ::
  "(nat \<Rightarrow> int) \<Rightarrow> conn \<Rightarrow> byte list \<Rightarrow> meter \<Rightarrow> (go_stop \<times> conn \<times> meter) option" where
  "write_loop now c b m =
     (case Write c b of
        (n, Some err, c') \<Rightarrow> Some (Fatal ''Err writ buf'', c', m)
      | (n, None, c') \<Rightarrow>
          if n \<noteq> length b then Some (Fatal ''Err short write'', c', m)
          else write_loop now c' b (count_bytes now n m))"

definition write_conn :: "(nat \<Rightarrow> int) \<Rightarrow> conn \<Rightarrow> (go_stop \<times> conn \<times> meter) option" where
  "write_conn now c = write_loop now c (mkbuf BUF_SZ) (meter_start now)"

definition server_main ::
  "io_err option \<Rightarrow> io_err + conn \<Rightarrow> (nat \<Rightarrow> int) \<Rightarrow> string list \<Rightarrow> (go_stop \<times> (conn \<times> meter) option) option" where
  "server_main listen_err accepted now args =
     (if length args \<noteq> 3 then Some (Fatal ''Usage'', None)
      else if listen_err \<noteq> None then Some (Fatal ''Error Listen'', None)
      else (case accepted of
              Inl err \<Rightarrow> Some (Fatal ''Error Accept'', None)
            | Inr c \<Rightarrow> map_option (map_prod id Some) (read_conn now c)))"

definition client_main ::
  "(string \<Rightarrow> io_err + conn) \<Rightarrow> (nat \<Rightarrow> int) \<Rightarrow> string list \<Rightarrow> (go_stop \<times> (conn \<times> meter) option) option" where
  "client_main dial now args =
     (if length args \<noteq> 3 then Some (Fatal ''Usage'', None)
      else (case dial (args ! 2) of
              Inl err \<Rightarrow> Some (Fatal ''Error Dial'', None)
            | Inr c \<Rightarrow> map_option (map_prod id Some) (write_conn now c)))"

section \<open>What the meter prints\<close>

definition mono_clock :: "(nat \<Rightarrow> int) \<Rightarrow> bool" where
  "mono_clock now \<longleftrightarrow> (\<forall>k. now k \<le> now (Suc k))"

text \<open>A printed line: above the true rate less one, and below it plus a fifth.\<close>

definition line_ok :: "int \<times> int \<times> int \<Rightarrow> bool" where
  "line_ok l \<longleftrightarrow> (case l of (nb, elapsed, v) \<Rightarrow> elapsed > PRINT_FREQ
     \<and> of_int (nb * Second) / of_int elapsed - 1 < (of_int v :: rat)
     \<and> (of_int v :: rat) < 6 / 5 * (of_int (nb * Second) / of_int elapsed))"

lemma tpt_bounds:
  assumes "0 < nb" and "elapsed > PRINT_FREQ"
  shows "line_ok (nb, elapsed, tpt nb elapsed)"
proof -
  define secs where "secs = elapsed div Second"
  have e: "0 < elapsed" "5 * Second \<le> elapsed" using assms(2) by (simp_all add: PRINT_FREQ_def Second_def)
  have secs5: "5 \<le> secs" using e(2) by (simp add: secs_def Second_def)
  have "secs * Second \<le> elapsed" and "elapsed < (secs + 1) * Second"
    using secs_def by (simp_all add: Second_def)
  moreover have "5 * ((secs + 1) * Second) \<le> 6 * (secs * Second)" using secs5 by (simp add: Second_def)
  ultimately have lo: "secs * Second \<le> elapsed" and hi: "5 * elapsed < 6 * (secs * Second)" by linarith+
  let ?r = "of_int nb / of_int secs :: rat" and ?rate = "of_int (nb * Second) / of_int elapsed :: rat"
  have pos: "(0::rat) < of_int secs" "(0::rat) < of_int elapsed" "(0::rat) < of_int nb"
    using secs5 e assms(1) by simp_all
  have "nb * Second * secs \<le> nb * elapsed"
    using mult_left_mono [OF lo, of nb] assms(1) by (simp add: ac_simps)
  then have "of_int (nb * Second * secs) \<le> (of_int (nb * elapsed) :: rat)" by (simp only: of_int_le_iff)
  then have "?rate \<le> ?r" using pos by (simp add: field_simps)
  moreover have "5 * (nb * elapsed) < 6 * (nb * Second * secs)"
    using mult_strict_left_mono [OF hi assms(1)] by (simp add: ac_simps)
  then have "of_int (5 * (nb * elapsed)) < (of_int (6 * (nb * Second * secs)) :: rat)" by (simp only: of_int_less_iff)
  then have "?r < 6 / 5 * ?rate" using pos by (simp add: field_simps)
  moreover have "elapsed sdiv Second = secs"
    using e(1) by (simp add: secs_def signed_divide_int_def Second_def)
  ultimately have "?rate - 1 < of_int \<lfloor>?r\<rfloor>" and "of_int \<lfloor>?r\<rfloor> < 6 / 5 * ?rate" and "elapsed sdiv Second = secs"
    by linarith+
  with assms(2) show ?thesis by (simp only: line_ok_def tpt_def prod.case)
qed

text \<open>Bytes counted, printed or not.\<close>

definition counted :: "meter \<Rightarrow> int" where
  "counted m = sum_list (map fst (printed m)) + nByte m"

definition meter_ok :: "meter \<Rightarrow> bool" where
  "meter_ok m \<longleftrightarrow> 0 \<le> nByte m \<and> (\<forall>l\<in>set (printed m). line_ok l)"

lemma meter_start [simp]: "meter_ok (meter_start now)" "counted (meter_start now) = 0"
  by (simp_all add: meter_ok_def counted_def meter_start_def)

lemma count_bytes_ok:
  assumes "mono_clock now" and "meter_ok m" and "0 < n"
  shows "meter_ok (count_bytes now n m)"
proof (cases "now (readings m) - since m > PRINT_FREQ")
  case True
  moreover have "now (readings m) \<le> now (readings m + 1)" using assms(1) by (simp add: mono_clock_def)
  ultimately have "line_ok (nByte m + int n, now (readings m + 1) - since m,
      tpt (nByte m + int n) (now (readings m + 1) - since m))"
    using assms(2,3) by (intro tpt_bounds) (simp_all add: meter_ok_def)
  with True assms(2) show ?thesis by (simp add: count_bytes_def Let_def meter_ok_def)
qed (use assms(2) in \<open>simp add: count_bytes_def Let_def meter_ok_def\<close>)

lemma counted_count_bytes [simp]: "counted (count_bytes now n m) = counted m + int n"
  by (simp add: count_bytes_def Let_def counted_def)

section \<open>The loops\<close>

lemma read_loop_runs:
  assumes "length b = BUF_SZ" and "mono_clock now" and "meter_ok m"
  shows "\<exists>m'. read_loop now c b m = Some (Fatal ''Err read buf'', c\<lparr>rx := []\<rparr>, m') \<and> meter_ok m'
    \<and> counted m' = counted m + int (length (rx c) div BUF_SZ * BUF_SZ)"
  using assms(1,3)
proof (induction "length (rx c)" arbitrary: c b m rule: less_induct)
  case less
  show ?case
  proof (cases "length (rx c) < BUF_SZ")
    case True
    with less.prems show ?thesis by (subst read_loop.simps) (simp add: ReadFull_short)
  next
    case False
    let ?c = "c\<lparr>rx := drop BUF_SZ (rx c)\<rparr>" and ?b = "take BUF_SZ (rx c)" and ?m = "count_bytes now BUF_SZ m"
    have step: "read_loop now c b m = read_loop now ?c ?b ?m"
      using False less.prems(1) by (subst read_loop.simps) (simp add: ReadFull_ok)
    have "meter_ok ?m" using less.prems(2) assms(2) by (intro count_bytes_ok) (simp_all add: BUF_SZ_def)
    moreover have "length (rx ?c) < length (rx c)" "length ?b = BUF_SZ" using False by (simp_all add: BUF_SZ_def)
    ultimately obtain m' where
      "read_loop now ?c ?b ?m = Some (Fatal ''Err read buf'', ?c\<lparr>rx := []\<rparr>, m')" "meter_ok m'"
      "counted m' = counted ?m + int (length (rx ?c) div BUF_SZ * BUF_SZ)"
      using less.hyps [of ?c ?b ?m] by blast
    moreover have "length (rx c) div BUF_SZ = Suc (length (rx ?c) div BUF_SZ)"
      using False by (simp add: le_div_geq BUF_SZ_def)
    ultimately show ?thesis using step by (auto simp: algebra_simps)
  qed
qed

definition write_end :: "conn \<Rightarrow> go_stop" where
  "write_end c = (if wfail c = None then Fatal ''Err short write'' else Fatal ''Err writ buf'')"

lemma write_loop_runs:
  assumes "mono_clock now" and "wcap c = Some k" and "meter_ok m"
  shows "\<exists>m'. write_loop now c (mkbuf BUF_SZ) m = Some (write_end c, sent c (mkbuf k), m') \<and> meter_ok m'
    \<and> counted m' = counted m + int (k div BUF_SZ * BUF_SZ)"
  using assms(2,3)
proof (induction k arbitrary: c m rule: less_induct)
  case (less k)
  show ?case
  proof (cases "k < BUF_SZ")
    case True
    then have "Write c (mkbuf BUF_SZ) = (k, wfail c, sent c (mkbuf k))"
      using less.prems(1) by (simp add: Write_def min_def)
    with True less.prems(2) show ?thesis
      by (subst write_loop.simps) (simp add: write_end_def split: option.splits)
  next
    case False
    let ?c = "sent c (mkbuf BUF_SZ)" and ?m = "count_bytes now BUF_SZ m"
    have "Write c (mkbuf BUF_SZ) = (BUF_SZ, None, ?c)"
      using False less.prems(1) by (simp add: Write_def)
    then have step: "write_loop now c (mkbuf BUF_SZ) m = write_loop now ?c (mkbuf BUF_SZ) ?m"
      by (subst write_loop.simps) simp
    have "meter_ok ?m" using less.prems(2) assms(1) by (intro count_bytes_ok) (simp_all add: BUF_SZ_def)
    moreover have "k - BUF_SZ < k" "wcap ?c = Some (k - BUF_SZ)" using False less.prems(1) by (simp_all add: BUF_SZ_def)
    ultimately obtain m' where
      "write_loop now ?c (mkbuf BUF_SZ) ?m = Some (write_end ?c, sent ?c (mkbuf (k - BUF_SZ)), m')" "meter_ok m'"
      "counted m' = counted ?m + int ((k - BUF_SZ) div BUF_SZ * BUF_SZ)"
      using less.IH [of "k - BUF_SZ" ?c ?m] by blast
    moreover have "k div BUF_SZ = Suc ((k - BUF_SZ) div BUF_SZ)"
      using False by (simp add: le_div_geq BUF_SZ_def)
    ultimately show ?thesis using step False by (auto simp: algebra_simps write_end_def)
  qed
qed

lemma write_loop_stops: "write_loop now c b m = Some y \<Longrightarrow> wcap c \<noteq> None"
proof (erule write_loop.raw_induct [of "\<lambda>now c b m y. wcap c \<noteq> None", rotated])
  fix f now c b m y
  assume IH: "\<And>now c b m y. f now c b m = Some y \<Longrightarrow> wcap c \<noteq> None"
    and body: "(case Write c b of
        (n, Some err, c') \<Rightarrow> Some (Fatal ''Err writ buf'', c', m)
      | (n, None, c') \<Rightarrow>
          if n \<noteq> length b then Some (Fatal ''Err short write'', c', m)
          else f now c' b (count_bytes now n m)) = Some y"
  show "wcap c \<noteq> None"
  proof
    assume c: "wcap c = None"
    then have "Write c b = (length b, None, sent c b)" by (simp add: Write_def)
    with body have "f now (sent c b) b (count_bytes now (length b) m) = Some y" by simp
    with IH c show False by fastforce
  qed
qed

lemma read_conn_runs:
  assumes "mono_clock now"
  shows "\<exists>m. read_conn now c = Some (Fatal ''Err read buf'', c\<lparr>rx := []\<rparr>, m) \<and> meter_ok m
    \<and> counted m = int (length (rx c) div BUF_SZ * BUF_SZ)"
  using read_loop_runs [OF length_mkbuf assms meter_start(1), of c] by (simp only: read_conn_def meter_start add_0)

lemma write_conn_runs:
  assumes "mono_clock now" and "wcap c = Some k"
  shows "\<exists>m. write_conn now c = Some (write_end c, sent c (mkbuf k), m) \<and> meter_ok m
    \<and> counted m = int (k div BUF_SZ * BUF_SZ)"
  using write_loop_runs [OF assms meter_start(1)] by (simp only: write_conn_def meter_start add_0)

section \<open>Properties\<close>



text \<open>
  C31. The writer returns exactly when the transport stops taking bytes at some point. If it
  takes \<open>k\<close> bytes, all \<open>k\<close> have been written, and both ends have counted the same bytes, the
  whole buffers among the \<open>k\<close>: what the writer printed and has pending, and what a reader of
  the stream has.
\<close>

theorem throughput_ends_agree:
  assumes "mono_clock now" and "mono_clock now'"
  shows "(wcap c = None \<longrightarrow> write_conn now c = None)
    \<and> (\<forall>k. wcap c = Some k \<longrightarrow>
        (\<exists>stop m m' c'. write_conn now c = Some (stop, sent c (mkbuf k), m)
          \<and> read_conn now' (peer_sends (mkbuf k)) = Some (Fatal ''Err read buf'', c', m')
          \<and> sum_list (map fst (printed m)) + nByte m = int (k div BUF_SZ * BUF_SZ)
          \<and> sum_list (map fst (printed m')) + nByte m' = sum_list (map fst (printed m)) + nByte m))"
proof (intro conjI allI impI)
  assume "wcap c = None"
  then show "write_conn now c = None"
    using write_loop_stops [of now c] by (cases "write_conn now c") (auto simp: write_conn_def)
next
  fix k assume k: "wcap c = Some k"
  show "\<exists>stop m m' c'. write_conn now c = Some (stop, sent c (mkbuf k), m)
          \<and> read_conn now' (peer_sends (mkbuf k)) = Some (Fatal ''Err read buf'', c', m')
          \<and> sum_list (map fst (printed m)) + nByte m = int (k div BUF_SZ * BUF_SZ)
          \<and> sum_list (map fst (printed m')) + nByte m' = sum_list (map fst (printed m)) + nByte m"
    using write_conn_runs [OF assms(1) k] read_conn_runs [OF assms(2), of "peer_sends (mkbuf k)"]
    unfolding counted_def by (metis length_mkbuf peer_sends_simps(1))
qed

theorem throughput_ends_agree_witness:
  "\<exists>stop m c'. write_conn int (peer_sends []\<lparr>wcap := Some 10000\<rparr>) = Some (stop, c', m)
    \<and> length (tx c') = 10000 \<and> sum_list (map fst (printed m)) + nByte m = 8192"
proof -
  have c: "wcap (peer_sends []\<lparr>wcap := Some 10000\<rparr>) = Some 10000" by simp
  have "mono_clock int" by (simp add: mono_clock_def)
  with throughput_ends_agree [of int int "peer_sends []\<lparr>wcap := Some 10000\<rparr>"] c
  obtain stop m where "write_conn int (peer_sends []\<lparr>wcap := Some 10000\<rparr>)
      = Some (stop, sent (peer_sends []\<lparr>wcap := Some 10000\<rparr>) (mkbuf 10000), m)"
    "sum_list (map fst (printed m)) + nByte m = int (10000 div BUF_SZ * BUF_SZ)" by blast
  then show ?thesis
    by (intro exI [of _ stop] exI [of _ m] exI [of _ "sent (peer_sends []\<lparr>wcap := Some 10000\<rparr>) (mkbuf 10000)"])
      (simp add: BUF_SZ_def)
qed

end
