(* ===== verification/ImgResize.thy ===== *)
theory ImgResize
  imports Prelude
begin

text \<open>
  The image resizer \<open>mem/imgresize/cmd/imgresize/main.go\<close>: get an object, decode it, resize it
  some number of times, encode and put the result. The S3 client and the image libraries are
  parameters; the program's flags are the record \<open>flags\<close>.
\<close>

section \<open>Flags and libraries\<close>

record flags =
  N_ROUNDS :: int
  IMG_DIM :: int
  BUCKET_NAME :: string
  INPUT_NAME :: string
  OUTPUT_NAME :: string

definition default_flags :: flags where
  "default_flags = \<lparr>N_ROUNDS = 1, IMG_DIM = 160, BUCKET_NAME = ''9ps3'', INPUT_NAME = ''img-save/8.jpg'',
     OUTPUT_NAME = ''img-process-out''\<rparr>"

text \<open>
  The client gives an object's bytes and what closing its body reports, and the outcome of
  storing an object. \<open>jpeg_Encode\<close> gives the bytes written before it returns, and its error;
  an image is passed to it as an interface value, so \<open>nil\<close> makes it panic.
\<close>

record s3_client =
  GetObject :: "string \<Rightarrow> string \<Rightarrow> string + byte list \<times> string option"
  PutObject :: "string \<Rightarrow> string \<Rightarrow> byte list \<Rightarrow> string option"

record 'img imglib =
  jpeg_Decode :: "byte list \<Rightarrow> string + 'img"
  resize_Resize :: "int64 \<Rightarrow> int64 \<Rightarrow> 'img \<Rightarrow> 'img"
  jpeg_Encode :: "'img \<Rightarrow> byte list \<times> string option"

record ImgProcess =
  inputs :: "string list"
  clnt :: s3_client

definition NewImgProcess :: "string + s3_client \<Rightarrow> go_stop + ImgProcess" where
  "NewImgProcess cfg =
     (case cfg of
        Inl err \<Rightarrow> Inl (Fatal ''Err Load default AWS config'')
      | Inr c \<Rightarrow> Inr \<lparr>inputs = [], clnt = c\<rparr>)"

section \<open>The work\<close>

text \<open>The loop over the rounds: each resizes the input image, not the last result.\<close>

fun resize_rounds :: "nat \<Rightarrow> ('img \<Rightarrow> 'img) \<Rightarrow> 'img \<Rightarrow> 'img option \<Rightarrow> 'img option" where
  "resize_rounds 0 f img imgOut = imgOut"
| "resize_rounds (Suc k) f img imgOut = resize_rounds k f img (Some (f img))"

text \<open>An object stored: bucket, key and contents.\<close>

type_synonym put = "string \<times> string \<times> byte list"

text \<open>
  The part of \<open>Work\<close> after the object has been read; the list holds the calls of \<open>PutObject\<close>.
  The error of \<open>jpeg.Encode\<close> is dropped.
\<close>

definition encode_and_put :: "flags \<Rightarrow> 'img imglib \<Rightarrow> ImgProcess \<Rightarrow> 'img option \<Rightarrow> (go_stop + unit) \<times> put list" where
  "encode_and_put fl lib ip imgOut =
     (case imgOut of
        None \<Rightarrow> (Inl (Panic ''invalid memory address or nil pointer dereference''), [])
      | Some out \<Rightarrow>
          let outbuf = fst (jpeg_Encode lib out);
              call = (BUCKET_NAME fl, OUTPUT_NAME fl, outbuf)
          in (case PutObject (clnt ip) (BUCKET_NAME fl) (OUTPUT_NAME fl) outbuf of
                Some err \<Rightarrow> (Inl (Fatal ''Err PutObject''), [call])
              | None \<Rightarrow> (Inr (), [call])))"

text \<open>The deferred close runs on a return and on a panic, but not after \<open>log.Fatalf\<close>.\<close>

definition close_body :: "string option \<Rightarrow> go_stop + unit \<Rightarrow> go_stop + unit" where
  "close_body close_err res =
     (case res of
        Inl (Fatal msg) \<Rightarrow> res
      | _ \<Rightarrow> (case close_err of None \<Rightarrow> res | Some err \<Rightarrow> Inl (Fatal ''Err close input body'')))"

definition Work :: "flags \<Rightarrow> 'img imglib \<Rightarrow> ImgProcess \<Rightarrow> (go_stop + unit) \<times> put list" where
  "Work fl lib ip =
     (case GetObject (clnt ip) (BUCKET_NAME fl) (INPUT_NAME fl) of
        Inl err \<Rightarrow> (Inl (Fatal ''Err GetObject''), [])
      | Inr (body, close_err) \<Rightarrow>
          (case jpeg_Decode lib body of
             Inl err \<Rightarrow> (Inl (Fatal ''Err decode err''), [])
           | Inr img \<Rightarrow>
               let dim = word_of_int (IMG_DIM fl);
                   imgOut = resize_rounds (nat (N_ROUNDS fl)) (resize_Resize lib dim dim) img None
               in (case encode_and_put fl lib ip imgOut of
                     (res, puts) \<Rightarrow> (close_body close_err res, puts))))"

definition imgresize_main :: "flags \<Rightarrow> 'img imglib \<Rightarrow> string + s3_client \<Rightarrow> (go_stop + unit) \<times> put list" where
  "imgresize_main fl lib cfg =
     (case NewImgProcess cfg of
        Inl stop \<Rightarrow> (Inl stop, [])
      | Inr ip \<Rightarrow> Work fl lib ip)"

section \<open>The rounds\<close>

lemma resize_rounds_eq: "resize_rounds k f img out = (if k = 0 then out else Some (f img))"
  by (induction k f img out rule: resize_rounds.induct) simp_all

lemma close_body_Inr [simp]: "close_body e res = Inr () \<longleftrightarrow> e = None \<and> res = Inr ()"
  by (auto simp: close_body_def split: sum.splits go_stop.splits option.splits)

section \<open>Properties\<close>

text \<open>
  C33. What a run of the resizer leaves behind. It stores nothing unless the input was read
  and decoded and there was at least one round; then it makes exactly one call, with the
  encoding of the input resized once, whatever the number of rounds and whether or not the
  encoder reported an error. It succeeds exactly when that call and the close of the input
  succeed, and ends with a Fatal error or a nil dereference otherwise.
\<close>

theorem imgresize_outcome:
  "(snd (imgresize_main fl lib cfg) =
      (case cfg of
         Inr c \<Rightarrow>
           (case GetObject c (BUCKET_NAME fl) (INPUT_NAME fl) of
              Inr (body, _) \<Rightarrow>
                (case jpeg_Decode lib body of
                   Inr img \<Rightarrow>
                     if 1 \<le> N_ROUNDS fl
                     then [(BUCKET_NAME fl, OUTPUT_NAME fl,
                            fst (jpeg_Encode lib (resize_Resize lib (of_int (IMG_DIM fl)) (of_int (IMG_DIM fl)) img)))]
                     else []
                 | Inl _ \<Rightarrow> [])
            | Inl _ \<Rightarrow> [])
       | Inl _ \<Rightarrow> []))
   \<and> (fst (imgresize_main fl lib cfg) = Inr () \<longleftrightarrow>
      (\<exists>c body img. cfg = Inr c \<and> GetObject c (BUCKET_NAME fl) (INPUT_NAME fl) = Inr (body, None)
         \<and> jpeg_Decode lib body = Inr img \<and> 1 \<le> N_ROUNDS fl
         \<and> PutObject c (BUCKET_NAME fl) (OUTPUT_NAME fl)
             (fst (jpeg_Encode lib (resize_Resize lib (of_int (IMG_DIM fl)) (of_int (IMG_DIM fl)) img))) = None))
   \<and> (\<forall>c body img. cfg = Inr c \<and> GetObject c (BUCKET_NAME fl) (INPUT_NAME fl) = Inr (body, None)
         \<and> jpeg_Decode lib body = Inr img \<and> N_ROUNDS fl \<le> 0 \<longrightarrow>
      fst (imgresize_main fl lib cfg) = Inl (Panic ''invalid memory address or nil pointer dereference''))"
proof (cases cfg)
  case (Inr c)
  show ?thesis
  proof (cases "GetObject c (BUCKET_NAME fl) (INPUT_NAME fl)")
    case (Inr got)
    obtain body close_err where got: "got = (body, close_err)" by fastforce
    show ?thesis
      using \<open>cfg = Inr c\<close> Inr got
      by (cases "jpeg_Decode lib body"; cases "1 \<le> N_ROUNDS fl")
        (auto simp: imgresize_main_def NewImgProcess_def Work_def encode_and_put_def Let_def resize_rounds_eq
          close_body_def split: option.splits)
  qed (use Inr in \<open>simp add: imgresize_main_def NewImgProcess_def Work_def\<close>)
qed (simp add: imgresize_main_def NewImgProcess_def)

text \<open>A library whose images are byte lists; resizing to \<open>n\<close> takes the first \<open>n\<close> bytes.\<close>

definition demo_lib :: "byte list imglib" where
  "demo_lib = \<lparr>jpeg_Decode = Inr, resize_Resize = (\<lambda>w h. take (unat w)), jpeg_Encode = (\<lambda>img. (img, None))\<rparr>"

definition demo_s3 :: s3_client where
  "demo_s3 = \<lparr>GetObject = (\<lambda>b k. Inr ([1, 2, 3, 4], None)), PutObject = (\<lambda>b k bs. None)\<rparr>"

theorem imgresize_outcome_witness:
  "imgresize_main (default_flags\<lparr>IMG_DIM := 3, N_ROUNDS := 2\<rparr>) demo_lib (Inr demo_s3)
     = (Inr (), [(''9ps3'', ''img-process-out'', [1, 2, 3])])
   \<and> imgresize_main (default_flags\<lparr>IMG_DIM := 3, N_ROUNDS := 0\<rparr>) demo_lib (Inr demo_s3)
     = (Inl (Panic ''invalid memory address or nil pointer dereference''), [])"
  using imgresize_outcome [of "default_flags\<lparr>IMG_DIM := 3, N_ROUNDS := 2\<rparr>" demo_lib "Inr demo_s3"]
    imgresize_outcome [of "default_flags\<lparr>IMG_DIM := 3, N_ROUNDS := 0\<rparr>" demo_lib "Inr demo_s3"]
  by (simp add: prod_eq_iff demo_s3_def demo_lib_def default_flags_def)

end
