(* ===== verification/FsAtomic.thy ===== *)
theory FsAtomic
  imports GoStr
begin

text \<open>
  \<open>docker/fs/fs_test.go\<close>: writing a file through a temporary file and a rename. The file system
  is a map from paths to contents, with the meaning that the \<open>os\<close> package gives to the calls;
  which call fails, and how much a failing write has written, is a parameter. A write
  returns the list of the file systems it passes through, the last one at its return, so
  that a crash or a reader in between sees one of them.
\<close>

type_synonym fs = "string \<rightharpoonup> byte list"

record fs_errs =
  e_mkdir :: "string option"
  e_open :: "string option"
  e_write :: "(nat \<times> string) option"
  e_sync :: "string option"
  e_close :: "string option"
  e_rename :: "string option"
  e_remove :: "string option"

definition contents :: "byte list" where
  "contents = mkbuf 400"

definition os_remove :: "string option \<Rightarrow> string \<Rightarrow> fs \<Rightarrow> fs" where
  "os_remove err p f = (if err = None then f(p := None) else f)"

definition writeAtomic :: "fs_errs \<Rightarrow> string \<Rightarrow> fs \<Rightarrow> string option \<times> fs list" where
  "writeAtomic e path f =
     (let tempPath = path @ ''.tmp'' in
      if e_mkdir e \<noteq> None then (e_mkdir e, [f])
      else if e_open e \<noteq> None then (e_open e, [f])
      else
        let f1 = f(tempPath \<mapsto> []) in
        case e_write e of
          Some (n, err) \<Rightarrow>
            let f2 = f1(tempPath \<mapsto> take n contents) in (Some err, [f, f1, f2, os_remove (e_remove e) tempPath f2])
        | None \<Rightarrow>
            let f2 = f1(tempPath \<mapsto> contents) in
            if e_sync e \<noteq> None then (e_sync e, [f, f1, f2, os_remove (e_remove e) tempPath f2])
            else if e_close e \<noteq> None then (e_close e, [f, f1, f2, os_remove (e_remove e) tempPath f2])
            else if e_rename e \<noteq> None then (e_rename e, [f, f1, f2, os_remove (e_remove e) tempPath f2])
            else (None, [f, f1, f2, f2(path \<mapsto> contents, tempPath := None)]))"

definition join :: "string \<Rightarrow> string \<Rightarrow> string" where
  "join dir name = dir @ ''/'' @ name"

text \<open>
  \<open>TestWriteAtomic\<close>: first \<open>nDummyFiles\<close> files that stay, then \<open>nOps\<close> that are written and
  removed. A failed assertion ends the test; the result is whether it got through, and the
  file system.
\<close>

fun dummy_loop :: "(nat \<Rightarrow> fs_errs) \<Rightarrow> string \<Rightarrow> nat \<Rightarrow> nat list \<Rightarrow> fs \<Rightarrow> bool \<times> fs" where
  "dummy_loop errs dir nOps [] f = (True, f)"
| "dummy_loop errs dir nOps (i # is) f =
     (let (err, trace) = writeAtomic (errs i) (join dir (Itoa (int i + int nOps))) f
      in if err \<noteq> None then (False, last trace) else dummy_loop errs dir nOps is (last trace))"

fun op_loop :: "(nat \<Rightarrow> fs_errs) \<Rightarrow> (nat \<Rightarrow> string option) \<Rightarrow> string \<Rightarrow> nat list \<Rightarrow> fs \<Rightarrow> bool \<times> fs" where
  "op_loop errs rm dir [] f = (True, f)"
| "op_loop errs rm dir (i # is) f =
     (let pn = join dir (Itoa (int i)); (err, trace) = writeAtomic (errs i) pn f
      in if err \<noteq> None then (False, last trace)
         else if rm i \<noteq> None then (False, last trace)
         else op_loop errs rm dir is (os_remove None pn (last trace)))"

definition TestWriteAtomic :: "(nat \<Rightarrow> fs_errs) \<Rightarrow> (nat \<Rightarrow> fs_errs) \<Rightarrow> (nat \<Rightarrow> string option) \<Rightarrow> string
    \<Rightarrow> nat \<Rightarrow> nat \<Rightarrow> fs \<Rightarrow> bool \<times> fs" where
  "TestWriteAtomic derrs errs rm dir nDummyFiles nOps f =
     (case dummy_loop derrs dir nOps [0..<nDummyFiles] f of
        (False, f1) \<Rightarrow> (False, f1)
      | (True, f1) \<Rightarrow> op_loop errs rm dir [0..<nOps] f1)"

section \<open>One write\<close>

lemma tmp_ne [simp]: "p @ ''.tmp'' \<noteq> p" "p \<noteq> p @ ''.tmp''"
  by simp_all

text \<open>Every state on the way has the old or the new file, and differs at most there and at the temporary.\<close>

lemma writeAtomic_states:
  assumes "f' \<in> set (snd (writeAtomic e path f))"
  shows "f' path \<in> {f path, Some contents}" and "q \<noteq> path \<Longrightarrow> q \<noteq> path @ ''.tmp'' \<Longrightarrow> f' q = f q"
  using assms
  by (auto simp: writeAtomic_def Let_def os_remove_def split: if_splits option.splits)

lemma writeAtomic_ok:
  "fst (writeAtomic e path f) = None \<Longrightarrow>
     last (snd (writeAtomic e path f)) = f(path \<mapsto> contents, path @ ''.tmp'' := None)"
  by (auto simp: writeAtomic_def Let_def split: if_splits option.splits)

lemma writeAtomic_failed:
  "fst (writeAtomic e path f) \<noteq> None \<Longrightarrow> last (snd (writeAtomic e path f)) path = f path"
  by (auto simp: writeAtomic_def Let_def os_remove_def split: if_splits option.splits)

lemma writeAtomic_cleans:
  "e_mkdir e = None \<Longrightarrow> e_open e = None \<Longrightarrow> e_remove e = None \<Longrightarrow>
     last (snd (writeAtomic e path f)) (path @ ''.tmp'') = None"
  by (auto simp: writeAtomic_def Let_def os_remove_def split: option.splits)

section \<open>Properties\<close>

text \<open>
  C13. \<open>writeAtomic\<close> is atomic whichever of its system calls fails: at every moment the file has
  its old or its complete new contents and no other file is touched but the temporary; it
  returns nil exactly when the file has been replaced and the temporary is gone; on an
  error the file is as before, and the temporary is gone unless its removal failed too.
\<close>

theorem write_atomic:
  assumes "writeAtomic e path f = (err, trace)" and "f path \<noteq> Some contents"
  shows "(\<forall>f'\<in>set trace. f' path \<in> {f path, Some contents} \<and> (\<forall>q. q \<noteq> path \<and> q \<noteq> path @ ''.tmp'' \<longrightarrow> f' q = f q))
    \<and> (err = None \<longleftrightarrow> last trace path = Some contents)
    \<and> (err = None \<longrightarrow> last trace = f(path \<mapsto> contents, path @ ''.tmp'' := None))
    \<and> (err \<noteq> None \<longrightarrow> last trace path = f path)
    \<and> (e_mkdir e = None \<and> e_open e = None \<and> e_remove e = None \<longrightarrow> last trace (path @ ''.tmp'') = None)"
proof -
  have "fst (writeAtomic e path f) = err" and "snd (writeAtomic e path f) = trace" using assms(1) by simp_all
  note w = writeAtomic_states [where e = e and path = path and f = f, unfolded this]
    writeAtomic_ok [of e path f, unfolded this] writeAtomic_failed [of e path f, unfolded this]
    writeAtomic_cleans [of e path f, unfolded this]
  have "err = None \<longleftrightarrow> last trace path = Some contents"
    using w(3,4) assms(2) by (cases err) auto
  then show ?thesis using w by blast
qed

theorem write_atomic_witness:
  "\<exists>trace. writeAtomic \<lparr>e_mkdir = None, e_open = None, e_write = Some (7, ''ENOSPC''), e_sync = None, e_close = None,
       e_rename = None, e_remove = None\<rparr> ''/data/1'' [''/data/1'' \<mapsto> [5]] = (Some ''ENOSPC'', trace)
     \<and> last trace ''/data/1'' = Some [5] \<and> last trace ''/data/1.tmp'' = None"
proof -
  let ?e = "\<lparr>e_mkdir = None, e_open = None, e_write = Some (7, ''ENOSPC''), e_sync = None, e_close = None,
       e_rename = None, e_remove = None\<rparr>"
  obtain trace where w: "writeAtomic ?e ''/data/1'' [''/data/1'' \<mapsto> [5]] = (Some ''ENOSPC'', trace)"
    by (simp add: writeAtomic_def Let_def)
  have "Some [5] \<noteq> Some contents" by (metis contents_def length_Cons length_mkbuf list.size(3) numeral_eq_one_iff One_nat_def option.inject semiring_norm(85))
  with write_atomic [OF w] show ?thesis by (intro exI [of _ trace]) (simp add: w)
qed

end
