(* ===== verification/Spec2Isabelle.thy ===== *)
theory Spec2Isabelle
  imports Network RpcTypes LBMachine LBPick Cluster SpinAbs LoadPath LoadRun LoadReport WatchAdd Registry Seccomp Perf
    Latency Invoke TlsCopies TlsNet Throughput ImgResize FsAtomic
begin

text \<open>
  \<^bold>\<open>A collection of load-balancing, elasticity and latency experiments in Go.\<close>

  The repository holds small programs, each with its own module. What they compute and how
  their goroutines interact is modelled here; most log output, and the cloud services
  they talk to, are not. The theories, bottom up:

  \<^bold>\<open>Shared.\<close> \<open>Prelude\<close>: the Go machine types, \<open>go_stop\<close> (\<open>log.Fatalf\<close> or a run-time panic),
  buffers, the \<open>tally\<close> of goroutines in a state, and the interfaces \<open>machine_invariant\<close>,
  \<open>machine_progress\<close> and \<open>machine_refinement\<close> that the concurrent components below
  implement. \<open>GoIO\<close>, \<open>GoStr\<close>, \<open>GoTime\<close>, \<open>GoDuration\<close>, \<open>GoFmt\<close>, \<open>GoUrl\<close>, \<open>GoHttp\<close>,
  \<open>GoJson\<close>: what the programs use of Go's \<open>io\<close>, \<open>net\<close>, \<open>encoding/binary\<close>, \<open>strconv\<close>, \<open>time\<close>, \<open>fmt\<close>, \<open>html\<close>, \<open>net/url\<close>,
  \<open>net/http\<close> and \<open>encoding/json\<close> (the text of values, the parser, and that it reads them back). A connection is what the peer has sent, how the stream ends,
  what has been written, and how much the transport still takes.

  \<^bold>\<open>load-balancing/proxy.\<close> A client sends framed requests to an echo server, directly, through
  a TCP proxy or through a unix-socket proxy. \<open>Frame\<close> is \<open>frame/frame.go\<close>, one definition per
  function; its interface \<open>framed_link\<close> is what the RPC layer uses. \<open>Rpc\<close> is \<open>rpc/rpc.go\<close>.
  \<open>Proxy\<close> is \<open>pipe/pipe.go\<close> and the four programs under \<open>cmd/\<close>: each \<open>main\<close> is its checks
  and its session, the session is what it does with its connections. \<open>Network\<close> wires the
  programs together: the streams between them are the fixpoint that the rounds of
  \<open>direct_round\<close> and \<open>proxied_round\<close> reach after as many rounds as there are RPCs, each
  round feeding every program what the others have written so far. The properties go from
  the frame layer on every stream, through the RPC layer, to whole sessions, and \<open>RpcTypes\<close>
  has what holds of every operation on every stream. \<open>TlsCopies\<close> is \<open>tls/frame\<close> and \<open>tls/rpc\<close>,
  copies of these files, shown to be the same functions.

  \<^bold>\<open>kubernetes/elasticity.\<close> \<open>LB\<close> is \<open>cmd/lb/main.go\<close>: the record \<open>LB\<close> has the fields of the
  struct, each locked method is a function on it; the order in which Go visits a map is an
  argument. \<open>LBProps\<close> has the contract of a backend picker as the locale \<open>backend_picker\<close>,
  interpreted on both policies and their switch, and the invariant. \<open>LBMachine\<close> interleaves
  handlers with pod refreshes; \<open>LBPick\<close> compares the scan of the queues with a reference;
  \<open>LBAbs\<close> is what the queue-length policy promises, an abstract dispatcher, with the proof that
  the load balancer refines it. \<open>SpinSrv\<close> is \<open>cmd/spinhttpsrv/main.go\<close>: requests, the
  request-rate estimate, the handler and the spin loop; \<open>SpinLoop\<close> proves that spinning
  stops, and when; \<open>SpinQueue\<close> runs handlers and workers over the unbuffered channels, one
  step per atomic operation; \<open>SpinAbs\<close> is what that promises, an abstract service station, with
  the proof that the server refines it; \<open>SpinReply\<close> is the text of a reply and what can be read
  from it. \<open>LoadStats\<close> is the recording and windowing of
  \<open>loadgen/loadgen_test.go\<close>, \<open>LoadRun\<close> its goroutines in a whole run (with at least one
  request per second; with none, \<open>startRequests\<close> divides by zero), \<open>LoadReport\<close> what it prints and
  its monitor of the autoscaler. \<open>LoadPath\<close> puts the three programs together: a request's URL
  from the load generator through the load balancer to the handler of the web server, and
  its reply on the way back. \<open>Cluster\<close> runs the load balancer's handlers and refreshes together
  with the handlers and workers of the pods: the counters at the front bound the queues behind
  it, and every request is served and counted out.

  \<^bold>\<open>service-discovery/etcd.\<close> \<open>WatchMap\<close> is \<open>util/watch_map.go\<close> with the watcher and the writers of
  \<open>load_test.go\<close>; etcd is a parameter with the hypothesis \<open>etcd_laws\<close>. \<open>WatchAdd\<close> adds the
  one-shot watchers and the dummy key of the last test. \<open>Registry\<close> is the registry
  tests of the same file and of \<open>consul/load_test/load_test.go\<close>: the locale \<open>registry_suite\<close> is
  the contract of a suite's entry names, interpreted on both; the service is a parameter
  with the hypothesis \<open>registry_laws\<close>.

  \<^bold>\<open>lambda.\<close> \<open>Seccomp\<close> is \<open>seccomp-allowlist/cmd/main.go\<close>, the operating system being a parameter; \<open>Perf\<close> is \<open>s3perf/cmd/main.go\<close> and \<open>cpuperf/cmd/main.go\<close>, the S3 client and the clock being
  parameters; \<open>Latency\<close> is \<open>start-latency/cmd/main.go\<close> with its types, and \<open>netperf\<close>; \<open>Invoke\<close> is
  \<open>start-latency/lambda_test.go\<close>, which invokes the lambda through a platform that is a parameter with the
  documented behaviours \<open>platform_runs\<close> and \<open>platform_fails\<close>. Their messages are modelled down
  to the bytes, with what a reader finds in them.

  \<^bold>\<open>tls, cgroups, mem and docker.\<close> \<open>TlsDial\<close> is \<open>tls/cmd/client/main.go\<close>: the goroutines that dial, their shared
  \<open>err\<close>, the wait group and the unbuffered channel; \<open>TlsSrv\<close> is \<open>tls/cmd/server/main.go\<close>;
  \<open>TlsNet\<close> runs the two together.
  \<open>Throughput\<close> is the two meters of \<open>cgroups/net/cmd\<close>, \<open>ImgResize\<close> is \<open>mem/imgresize\<close>, with
  the image libraries as parameters. \<open>FsAtomic\<close> is
  \<open>docker/fs/fs_test.go\<close>: write through a temporary file and rename.

  \<^bold>\<open>Kinds of statement.\<close> Sequential code: the result on every branch, as an equation.
  Concurrent code: an inductive step relation, an invariant of the reachable states, and
  progress by a budget that each step lowers, so that runs are finite, can always be
  continued to the goal, and end nowhere else. The budgets are linear in the number of
  goroutines and stated in the properties (\<open>11 n\<close> for the spin server, \<open>14 n + k\<close> with the load balancer in front and \<open>k\<close> refreshes, \<open>6 n + 3\<close> for the
  dials, \<open>8 n + 3\<close> with their server, \<open>4 rps + 1\<close> per second and two for the load generator, \<open>m (4 w + 5) + w\<close> for \<open>m\<close> writers and \<open>w\<close> watchers). The spin loop runs on fuel;
  \<open>nat dur + 10000\<close> is enough, since each turn takes at least a nanosecond and the loop looks at
  the clock every 10000 turns. The timed loops of \<open>Perf\<close> and the endless ones of \<open>Throughput\<close> are partial functions, \<open>None\<close>
  being a loop that never ends, with properties that say when they return.

  \<^bold>\<open>Abstractions.\<close> A \<open>float64\<close> is the exact rational. Go's \<open>int\<close> is an unbounded integer where
  it only counts (requests, bytes), an \<open>int64\<close> word where it wraps (the product in the spin
  loop), and the 32-bit wire fields are words. A pod refresh and a handler's critical
  section are atomic, since each holds the mutex. Error texts are shortened. A write to etcd
  is taken to succeed, and what the response of a one-shot watcher holds is left open.

  \<^bold>\<open>Not modelled.\<close> The calls of the Kubernetes and AWS clients themselves, and two helpers of the
  load generator that nothing calls; the last log line of its report, which prints floats
  with \<open>%v\<close>; the older client in comments at the
  head of \<open>tls/cmd/client/main.go\<close>; the C++, C, Rust and Python experiments, the vendored
  headers, and the deployment files.
\<close>

end
